theory Spec2Isabelle
  imports Main "HOL-Library.Word" "HOL-Library.Signed_Division"
begin

unbundle bit_operations_syntax

section \<open>Machine integers\<close>

text \<open>
  The library works on \<open>int16_t\<close> coordinates, \<open>uint16_t\<close> colours, \<open>uint8_t\<close> settings and
  \<open>uint32_t\<close> lengths. They are words here; a signed quantity is read through \<open>sint\<close>, an
  unsigned one through \<open>unat\<close> or \<open>uint\<close>. C++ promotes operands narrower than \<open>int\<close> to
  \<open>int\<close> (32 bits on the target) before arithmetic, so an expression such as \<open>x + w - 1\<close> on
  16-bit operands is computed exactly: it is an \<open>int\<close> term over \<open>sint\<close> here. Storing the
  result into an \<open>int16_t\<close> reduces it modulo \<open>2 ^ 16\<close> (what GCC documents for the
  implementation-defined narrowing), which is \<open>word_of_int\<close>. Division of \<open>int\<close>s truncates
  towards zero, which is \<open>sdiv\<close>.
\<close>

type_synonym i16 = "16 word"
type_synonym u8 = "8 word"
type_synonym u16 = "16 word"
type_synonym u32 = "32 word"

abbreviation (input) int16_of :: "int \<Rightarrow> i16" where
  "int16_of v \<equiv> word_of_int v"

definition int32_ok :: "int \<Rightarrow> bool" where
  "int32_ok v = (- (2 ^ 31) \<le> v \<and> v < 2 ^ 31)"

text \<open>What the hardware or the language leaves undefined is a value of this type.\<close>

datatype fault = OutOfBounds | DivideByZero | SignedOverflow

section \<open>Adafruit\_GFX: the state of a graphics context\<close>

text \<open>
  The fields of class \<open>Adafruit_GFX\<close>. The members \<open>_width\<close>, \<open>_height\<close> and \<open>_cp437\<close> are
  \<open>uwidth\<close>, \<open>uheight\<close> and \<open>cp437_flag\<close> (an identifier cannot start with an underscore);
  \<open>gfxFont\<close> is a pointer, \<open>None\<close> when null. Subclasses are record extensions.
\<close>

record Adafruit_GFX =
  WIDTH :: i16
  HEIGHT :: i16
  uwidth :: i16
  uheight :: i16
  cursor_x :: i16
  cursor_y :: i16
  textcolor :: u16
  textbgcolor :: u16
  textsize :: u8
  rotation :: u8
  wrap :: bool
  cp437_flag :: bool
  gfxFont :: "nat option"

definition Adafruit_GFX_ctor :: "i16 \<Rightarrow> i16 \<Rightarrow> Adafruit_GFX" where
  "Adafruit_GFX_ctor w h =
     \<lparr>WIDTH = w, HEIGHT = h, uwidth = w, uheight = h, cursor_x = 0, cursor_y = 0,
      textcolor = 0xffff, textbgcolor = 0xffff, textsize = 1, rotation = 0, wrap = True,
      cp437_flag = False, gfxFont = None\<rparr>"

text \<open>\<open>setRotation\<close>: the switch has no default case; the last branch is the fall-through.\<close>

definition setRotation :: "u8 \<Rightarrow> 'a Adafruit_GFX_scheme \<Rightarrow> 'a Adafruit_GFX_scheme" where
  "setRotation x g =
     (let g = g\<lparr>rotation := x AND 3\<rparr> in
      if rotation g = 0 \<or> rotation g = 2 then g\<lparr>uwidth := WIDTH g, uheight := HEIGHT g\<rparr>
      else if rotation g = 1 \<or> rotation g = 3 then g\<lparr>uwidth := HEIGHT g, uheight := WIDTH g\<rparr>
      else g)"

definition setCursor :: "i16 \<Rightarrow> i16 \<Rightarrow> 'a Adafruit_GFX_scheme \<Rightarrow> 'a Adafruit_GFX_scheme" where
  "setCursor x y g = g\<lparr>cursor_x := x, cursor_y := y\<rparr>"

definition setTextColor :: "u16 \<Rightarrow> 'a Adafruit_GFX_scheme \<Rightarrow> 'a Adafruit_GFX_scheme" where
  "setTextColor c g = g\<lparr>textcolor := c, textbgcolor := c\<rparr>"

definition setTextColorBg :: "u16 \<Rightarrow> u16 \<Rightarrow> 'a Adafruit_GFX_scheme \<Rightarrow> 'a Adafruit_GFX_scheme" where
  "setTextColorBg c b g = g\<lparr>textcolor := c, textbgcolor := b\<rparr>"

definition setTextSize :: "u8 \<Rightarrow> 'a Adafruit_GFX_scheme \<Rightarrow> 'a Adafruit_GFX_scheme" where
  "setTextSize s g = g\<lparr>textsize := (if unat s > 0 then s else 1)\<rparr>"

definition setTextWrap :: "bool \<Rightarrow> 'a Adafruit_GFX_scheme \<Rightarrow> 'a Adafruit_GFX_scheme" where
  "setTextWrap w g = g\<lparr>wrap := w\<rparr>"

definition cp437 :: "bool \<Rightarrow> 'a Adafruit_GFX_scheme \<Rightarrow> 'a Adafruit_GFX_scheme" where
  "cp437 x g = g\<lparr>cp437_flag := x\<rparr>"

definition setFont :: "nat option \<Rightarrow> 'a Adafruit_GFX_scheme \<Rightarrow> 'a Adafruit_GFX_scheme" where
  "setFont f g =
     (let g = (case f of
                 Some p \<Rightarrow> (if gfxFont g = None then g\<lparr>cursor_y := cursor_y g + 6\<rparr> else g)
               | None \<Rightarrow> (if gfxFont g = None then g else g\<lparr>cursor_y := cursor_y g - 6\<rparr>))
      in g\<lparr>gfxFont := f\<rparr>)"

text \<open>A call of one of the state-changing members above, and a sequence of such calls.\<close>

datatype gfx_op =
    SetRotation u8
  | SetCursor i16 i16
  | SetTextColor u16
  | SetTextColorBg u16 u16
  | SetTextSize u8
  | SetTextWrap bool
  | Cp437 bool
  | SetFont "nat option"

fun apply_op :: "gfx_op \<Rightarrow> 'a Adafruit_GFX_scheme \<Rightarrow> 'a Adafruit_GFX_scheme" where
  "apply_op (SetRotation r) g = setRotation r g"
| "apply_op (SetCursor x y) g = setCursor x y g"
| "apply_op (SetTextColor c) g = setTextColor c g"
| "apply_op (SetTextColorBg c b) g = setTextColorBg c b g"
| "apply_op (SetTextSize s) g = setTextSize s g"
| "apply_op (SetTextWrap w) g = setTextWrap w g"
| "apply_op (Cp437 x) g = cp437 x g"
| "apply_op (SetFont f) g = setFont f g"

fun run_ops :: "gfx_op list \<Rightarrow> 'a Adafruit_GFX_scheme \<Rightarrow> 'a Adafruit_GFX_scheme" where
  "run_ops [] g = g"
| "run_ops (c # cs) g = run_ops cs (apply_op c g)"

fun rotation_requests :: "gfx_op list \<Rightarrow> u8 list" where
  "rotation_requests [] = []"
| "rotation_requests (SetRotation r # cs) = r # rotation_requests cs"
| "rotation_requests (c # cs) = rotation_requests cs"

section \<open>Adafruit\_GFX: the generic rasteriser\<close>

text \<open>
  The drawing members of the base class, with every virtual call resolved to the base class's
  own default: \<open>writePixel\<close> calls \<open>drawPixel\<close>, \<open>writeFastVLine\<close> calls \<open>drawFastVLine\<close>,
  \<open>writeFastHLine\<close> calls \<open>drawFastHLine\<close>. What remains abstract is \<open>drawPixel\<close> (pure
  virtual) and the transaction hooks \<open>startWrite\<close> and \<open>endWrite\<close>; a drawing member returns the
  sequence of calls it makes to these three. The loop counters are \<open>int16_t\<close> and wrap
  around, so a loop may run forever: the result is \<open>None\<close> then.
\<close>

datatype gfx_event = StartWrite | EndWrite | DrawPixel i16 i16 u16

definition GFX_writePixel :: "i16 \<Rightarrow> i16 \<Rightarrow> u16 \<Rightarrow> gfx_event list" where
  "GFX_writePixel x y color = [DrawPixel x y color]"

partial_function (option) GFX_writeLine_loop ::
  "bool \<Rightarrow> u16 \<Rightarrow> i16 \<Rightarrow> i16 \<Rightarrow> i16 \<Rightarrow> i16 \<Rightarrow> i16 \<Rightarrow> i16 \<Rightarrow> i16 \<Rightarrow> gfx_event list
     \<Rightarrow> gfx_event list option" where
  "GFX_writeLine_loop steep color dx dy ystep x1 x0 y0 err acc =
     (if sint x0 \<le> sint x1 then
        let acc = acc @ (if steep then GFX_writePixel y0 x0 color else GFX_writePixel x0 y0 color);
            err = err - dy;
            (y0, err) = (if sint err < 0 then (y0 + ystep, err + dx) else (y0, err))
        in GFX_writeLine_loop steep color dx dy ystep x1 (x0 + 1) y0 err acc
      else Some acc)"

declare GFX_writeLine_loop.simps [code]

definition GFX_writeLine :: "i16 \<Rightarrow> i16 \<Rightarrow> i16 \<Rightarrow> i16 \<Rightarrow> u16 \<Rightarrow> gfx_event list option" where
  "GFX_writeLine x0 y0 x1 y1 color =
     (let steep = (\<bar>sint y1 - sint y0\<bar> > \<bar>sint x1 - sint x0\<bar>);
          (x0, y0, x1, y1) = (if steep then (y0, x0, y1, x1) else (x0, y0, x1, y1));
          (x0, y0, x1, y1) = (if sint x0 > sint x1 then (x1, y1, x0, y0) else (x0, y0, x1, y1));
          dx = int16_of (sint x1 - sint x0);
          dy = int16_of \<bar>sint y1 - sint y0\<bar>;
          err = int16_of (sint dx sdiv 2);
          ystep = (if sint y0 < sint y1 then 1 else - 1)
      in GFX_writeLine_loop steep color dx dy ystep x1 x0 y0 err [])"

definition in_transaction :: "gfx_event list option \<Rightarrow> gfx_event list option" where
  "in_transaction body = map_option (\<lambda>t. StartWrite # t @ [EndWrite]) body"

definition GFX_drawFastVLine :: "i16 \<Rightarrow> i16 \<Rightarrow> i16 \<Rightarrow> u16 \<Rightarrow> gfx_event list option" where
  "GFX_drawFastVLine x y h color =
     in_transaction (GFX_writeLine x y x (int16_of (sint y + sint h - 1)) color)"

definition GFX_drawFastHLine :: "i16 \<Rightarrow> i16 \<Rightarrow> i16 \<Rightarrow> u16 \<Rightarrow> gfx_event list option" where
  "GFX_drawFastHLine x y w color =
     in_transaction (GFX_writeLine x y (int16_of (sint x + sint w - 1)) y color)"

definition GFX_writeFastVLine :: "i16 \<Rightarrow> i16 \<Rightarrow> i16 \<Rightarrow> u16 \<Rightarrow> gfx_event list option" where
  "GFX_writeFastVLine x y h color = GFX_drawFastVLine x y h color"

definition GFX_writeFastHLine :: "i16 \<Rightarrow> i16 \<Rightarrow> i16 \<Rightarrow> u16 \<Rightarrow> gfx_event list option" where
  "GFX_writeFastHLine x y w color = GFX_drawFastHLine x y w color"

partial_function (option) GFX_fillRect_loop ::
  "i16 \<Rightarrow> i16 \<Rightarrow> i16 \<Rightarrow> i16 \<Rightarrow> u16 \<Rightarrow> i16 \<Rightarrow> gfx_event list \<Rightarrow> gfx_event list option" where
  "GFX_fillRect_loop x y w h color i acc =
     (if sint i < sint x + sint w then
        (case GFX_writeFastVLine i y h color of
           None \<Rightarrow> None
         | Some t \<Rightarrow> GFX_fillRect_loop x y w h color (i + 1) (acc @ t))
      else Some acc)"

declare GFX_fillRect_loop.simps [code]

definition GFX_fillRect :: "i16 \<Rightarrow> i16 \<Rightarrow> i16 \<Rightarrow> i16 \<Rightarrow> u16 \<Rightarrow> gfx_event list option" where
  "GFX_fillRect x y w h color = in_transaction (GFX_fillRect_loop x y w h color x [])"

definition GFX_drawLine :: "i16 \<Rightarrow> i16 \<Rightarrow> i16 \<Rightarrow> i16 \<Rightarrow> u16 \<Rightarrow> gfx_event list option" where
  "GFX_drawLine x0 y0 x1 y1 color =
     (if x0 = x1 then
        let (y0, y1) = (if sint y0 > sint y1 then (y1, y0) else (y0, y1))
        in GFX_drawFastVLine x0 y0 (int16_of (sint y1 - sint y0 + 1)) color
      else if y0 = y1 then
        let (x0, x1) = (if sint x0 > sint x1 then (x1, x0) else (x0, x1))
        in GFX_drawFastHLine x0 y0 (int16_of (sint x1 - sint x0 + 1)) color
      else in_transaction (GFX_writeLine x0 y0 x1 y1 color))"

text \<open>
  \<open>fillTriangle\<close>. The accumulators \<open>sa\<close> and \<open>sb\<close> are \<open>int32_t\<close>: they are \<open>int\<close>s here, and an
  iteration whose arithmetic leaves the 32-bit range, or divides by zero, ends in a fault
  (the behaviour is undefined in C++). The two loops of the source have the same body, up
  to the edge that \<open>a\<close> follows: they are one function here, which returns the scanline it
  stopped at, where the second loop starts. The local \<open>last\<close> is \<open>last_y\<close>.
\<close>

definition GFX_scanline ::
  "i16 \<Rightarrow> i16 \<Rightarrow> i16 \<Rightarrow> u16 \<Rightarrow> gfx_event list option" where
  "GFX_scanline a b y color =
     (let (a, b) = (if sint a > sint b then (b, a) else (a, b))
      in GFX_writeFastHLine a y (int16_of (sint b - sint a + 1)) color)"

partial_function (option) GFX_fillTriangle_loop ::
  "u16 \<Rightarrow> i16 \<Rightarrow> i16 \<Rightarrow> i16 \<Rightarrow> i16 \<Rightarrow> i16 \<Rightarrow> i16 \<Rightarrow> i16 \<Rightarrow> i16 \<Rightarrow> int \<Rightarrow> int \<Rightarrow> gfx_event list
     \<Rightarrow> (fault + i16 \<times> gfx_event list) option" where
  "GFX_fillTriangle_loop color xa dxa dya xb dxb dyb last_y y sa sb acc =
     (if sint y \<le> sint last_y then
        if dya = 0 \<or> dyb = 0 then Some (Inl DivideByZero)
        else if int32_ok (sa sdiv sint dya) \<and> int32_ok (sint xa + sa sdiv sint dya)
              \<and> int32_ok (sb sdiv sint dyb) \<and> int32_ok (sint xb + sb sdiv sint dyb)
              \<and> int32_ok (sa + sint dxa) \<and> int32_ok (sb + sint dxb) then
          (case GFX_scanline (int16_of (sint xa + sa sdiv sint dya))
                  (int16_of (sint xb + sb sdiv sint dyb)) y color of
             None \<Rightarrow> None
           | Some t \<Rightarrow> GFX_fillTriangle_loop color xa dxa dya xb dxb dyb last_y (y + 1)
                        (sa + sint dxa) (sb + sint dxb) (acc @ t))
        else Some (Inl SignedOverflow)
      else Some (Inr (y, acc)))"

declare GFX_fillTriangle_loop.simps [code]

definition GFX_fillTriangle ::
  "i16 \<Rightarrow> i16 \<Rightarrow> i16 \<Rightarrow> i16 \<Rightarrow> i16 \<Rightarrow> i16 \<Rightarrow> u16 \<Rightarrow> (fault + gfx_event list) option" where
  "GFX_fillTriangle x0 y0 x1 y1 x2 y2 color =
     (let (x0, y0, x1, y1) = (if sint y0 > sint y1 then (x1, y1, x0, y0) else (x0, y0, x1, y1));
          (x1, y1, x2, y2) = (if sint y1 > sint y2 then (x2, y2, x1, y1) else (x1, y1, x2, y2));
          (x0, y0, x1, y1) = (if sint y0 > sint y1 then (x1, y1, x0, y0) else (x0, y0, x1, y1))
      in
      if y0 = y2 then
        let a = x0; b = x0;
            (a, b) = (if sint x1 < sint a then (x1, b) else if sint x1 > sint b then (a, x1) else (a, b));
            (a, b) = (if sint x2 < sint a then (x2, b) else if sint x2 > sint b then (a, x2) else (a, b))
        in map_option Inr
             (in_transaction (GFX_writeFastHLine a y0 (int16_of (sint b - sint a + 1)) color))
      else
        let dx01 = int16_of (sint x1 - sint x0); dy01 = int16_of (sint y1 - sint y0);
            dx02 = int16_of (sint x2 - sint x0); dy02 = int16_of (sint y2 - sint y0);
            dx12 = int16_of (sint x2 - sint x1); dy12 = int16_of (sint y2 - sint y1);
            last_y = (if y1 = y2 then y1 else int16_of (sint y1 - 1))
        in
        (case GFX_fillTriangle_loop color x0 dx01 dy01 x0 dx02 dy02 last_y y0 0 0 [] of
           None \<Rightarrow> None
         | Some (Inl f) \<Rightarrow> Some (Inl f)
         | Some (Inr (y, upper)) \<Rightarrow>
             (case GFX_fillTriangle_loop color x1 dx12 dy12 x0 dx02 dy02 y2 y
                     (sint dx12 * (sint y - sint y1)) (sint dx02 * (sint y - sint y0)) [] of
                None \<Rightarrow> None
              | Some (Inl f) \<Rightarrow> Some (Inl f)
              | Some (Inr (y', lower)) \<Rightarrow> Some (Inr (StartWrite # upper @ lower @ [EndWrite])))))"

text \<open>The coordinates a run of the rasteriser passes to \<open>drawPixel\<close>.\<close>

fun event_pixels :: "gfx_event list \<Rightarrow> (i16 \<times> i16) list" where
  "event_pixels [] = []"
| "event_pixels (DrawPixel x y c # es) = (x, y) # event_pixels es"
| "event_pixels (e # es) = event_pixels es"

definition pixels_written :: "gfx_event list option \<Rightarrow> (i16 \<times> i16) set" where
  "pixels_written r = (case r of None \<Rightarrow> {} | Some t \<Rightarrow> set (event_pixels t))"

definition triangle_pixels :: "(fault + gfx_event list) option \<Rightarrow> (i16 \<times> i16) set" where
  "triangle_pixels r = (case r of Some (Inr t) \<Rightarrow> set (event_pixels t) | _ \<Rightarrow> {})"

section \<open>Memory\<close>

text \<open>
  An array or a heap buffer is a list of its cells. A store outside it is a fault (the
  behaviour is undefined in C++), and so is a block operation that runs past its end.
  \<open>memset\<close> takes its count as \<open>size_t\<close>: a negative \<open>int\<close> becomes a count beyond any buffer, hence
  a fault too.
\<close>

definition poke :: "'a list \<Rightarrow> int \<Rightarrow> 'a \<Rightarrow> fault + 'a list" where
  "poke buf i v = (if 0 \<le> i \<and> i < int (length buf) then Inr (buf[nat i := v]) else Inl OutOfBounds)"

definition peek :: "'a list \<Rightarrow> int \<Rightarrow> 'a option" where
  "peek buf i = (if 0 \<le> i \<and> i < int (length buf) then Some (buf ! nat i) else None)"

definition memset :: "'a list \<Rightarrow> int \<Rightarrow> 'a \<Rightarrow> int \<Rightarrow> fault + 'a list" where
  "memset buf off v n =
     (if 0 \<le> off \<and> 0 \<le> n \<and> off + n \<le> int (length buf)
      then Inr (take (nat off) buf @ replicate (nat n) v @ drop (nat (off + n)) buf)
      else Inl OutOfBounds)"

section \<open>Adafruit\_SPITFT: the hardware sink\<close>

text \<open>
  What the class sends to its collaborators, in order: the SPI transaction calls, the
  chip-select pin, the address window (\<open>setAddrWindow\<close> is pure virtual: the display driver
  implements it), single 16-bit transfers and block transfers from \<open>_spi_buffer\<close>. A block
  transfer of \<open>n\<close> bytes is recorded with the \<open>n div 2\<close> buffer words it sends; a transfer of
  more bytes than the buffer holds reads past its end, a fault.
\<close>

datatype spi_event =
    BeginTransaction
  | EndTransaction
  | DigitalWrite "8 word" bool
  | SetAddrWindow u16 u16 u16 u16
  | Transfer16 u16
  | TransferBuf "u16 list"

record Adafruit_SPITFT = Adafruit_GFX +
  rst_pin :: "8 word"
  cs_pin :: "8 word"
  dc_pin :: "8 word"
  spi_buffer :: "u16 list"

definition SPI_BLOCKSIZE :: u32 where
  "SPI_BLOCKSIZE = 32"

definition color565 :: "u8 \<Rightarrow> u8 \<Rightarrow> u8 \<Rightarrow> u16" where
  "color565 red green blue =
     ucast (push_bit 8 ((ucast red :: u32) AND 0xF8) OR push_bit 3 ((ucast green :: u32) AND 0xFC)
            OR drop_bit 3 (ucast blue :: u32))"

definition SPITFT_startWrite :: "'a Adafruit_SPITFT_scheme \<Rightarrow> spi_event list" where
  "SPITFT_startWrite s = [BeginTransaction, DigitalWrite (cs_pin s) False]"

definition SPITFT_endWrite :: "'a Adafruit_SPITFT_scheme \<Rightarrow> spi_event list" where
  "SPITFT_endWrite s = [DigitalWrite (cs_pin s) True, EndTransaction]"

definition SPI_WRITE16 :: "u16 \<Rightarrow> spi_event list" where
  "SPI_WRITE16 w = [Transfer16 w]"

definition spi_transfer :: "u16 list \<Rightarrow> nat \<Rightarrow> fault + spi_event list" where
  "spi_transfer buf nbytes =
     (if nbytes \<le> 2 * length buf then Inr [TransferBuf (take (nbytes div 2) buf)] else Inl OutOfBounds)"

text \<open>
  The two loops of \<open>writeColor\<close>; their counters stay below \<open>2 ^ 27\<close> and are \<open>nat\<close>s. The first
  stores into \<open>_spi_buffer\<close> cell by cell; the second sends the array whole,
  \<open>sizeof(_spi_buffer)\<close> bytes, which the declaration \<open>uint16_t _spi_buffer[SPI_BLOCKSIZE]\<close> makes
  two bytes for each of \<open>SPI_BLOCKSIZE\<close> cells. It returns the counter \<open>i\<close> too, which the
  last transfer of \<open>writeColor\<close> reads.
\<close>

function SPITFT_fill_buffer :: "nat \<Rightarrow> nat \<Rightarrow> u16 \<Rightarrow> u16 list \<Rightarrow> fault + u16 list" where
  "SPITFT_fill_buffer i count c buf =
     (if i < count then
        (case poke buf (int i) c of
           Inl f \<Rightarrow> Inl f
         | Inr buf' \<Rightarrow> SPITFT_fill_buffer (i + 1) count c buf')
      else Inr buf)"
  by pat_completeness auto
termination
  by (relation "measure (\<lambda>(i, count, c, buf). count - i)") auto

declare SPITFT_fill_buffer.simps [simp del]

function SPITFT_transfer_blocks ::
  "nat \<Rightarrow> nat \<Rightarrow> u16 list \<Rightarrow> spi_event list \<Rightarrow> fault + nat \<times> spi_event list" where
  "SPITFT_transfer_blocks i n buf acc =
     (if i < n then
        (case spi_transfer buf (2 * unat SPI_BLOCKSIZE) of
           Inl f \<Rightarrow> Inl f
         | Inr t \<Rightarrow> SPITFT_transfer_blocks (i + 1) n buf (acc @ t))
      else Inr (i, acc))"
  by pat_completeness auto
termination
  by (relation "measure (\<lambda>(i, n, buf, acc). n - i)") auto

declare SPITFT_transfer_blocks.simps [simp del]

text \<open>The constant \<open>c\<close> of \<open>writeColor\<close>: the colour with its two bytes exchanged.\<close>

definition swapped :: "u16 \<Rightarrow> u16" where
  "swapped color = ucast (push_bit 8 ((ucast color :: u32) AND 0xff) OR drop_bit 8 (ucast color :: u32))"

text \<open>
  A member of the sink returns the events it sent and the state it left, or the fault it
  ran into.
\<close>

type_synonym 'a sink_result = "fault + spi_event list \<times> 'a"

definition SPITFT_writeColor ::
  "u16 \<Rightarrow> u32 \<Rightarrow> 'a Adafruit_SPITFT_scheme \<Rightarrow> 'a Adafruit_SPITFT_scheme sink_result" where
  "SPITFT_writeColor color len s =
     (if len = 0 then Inr ([], s)
      else if len = 4 then Inr (SPI_WRITE16 color @ SPI_WRITE16 color @ SPI_WRITE16 color @ SPI_WRITE16 color, s)
      else if len = 3 then Inr (SPI_WRITE16 color @ SPI_WRITE16 color @ SPI_WRITE16 color, s)
      else if len = 2 then Inr (SPI_WRITE16 color @ SPI_WRITE16 color, s)
      else if len = 1 then Inr (SPI_WRITE16 color, s)
      else
        let c = swapped color;
            count = min SPI_BLOCKSIZE len
        in
        (case SPITFT_fill_buffer 0 (unat count) c (spi_buffer s) of
           Inl f \<Rightarrow> Inl f
         | Inr buf \<Rightarrow>
             let n = len div SPI_BLOCKSIZE in
             (case SPITFT_transfer_blocks 0 (unat n) buf [] of
                Inl f \<Rightarrow> Inl f
              | Inr (i, blocks) \<Rightarrow>
                  (case spi_transfer buf (unat ((len - of_nat i * SPI_BLOCKSIZE) * 2)) of
                     Inl f \<Rightarrow> Inl f
                   | Inr rest \<Rightarrow> Inr (blocks @ rest, s\<lparr>spi_buffer := buf\<rparr>)))))"

text \<open>
  The rejection and clipping code of \<open>writeFillRect\<close> (lines 111 to 140 of Adafruit\_SPITFT.cpp),
  which \<open>fillRect\<close> repeats word for word (lines 212 to 241): \<open>None\<close> when the rectangle is
  rejected, the clipped rectangle otherwise. \<open>x2\<close> and \<open>y2\<close> are \<open>int32_t\<close> in the source.
\<close>

definition SPITFT_clip ::
  "i16 \<Rightarrow> i16 \<Rightarrow> i16 \<Rightarrow> i16 \<Rightarrow> i16 \<Rightarrow> i16 \<Rightarrow> (i16 \<times> i16 \<times> i16 \<times> i16) option" where
  "SPITFT_clip wd ht x y w h =
     (if w \<noteq> 0 \<and> h \<noteq> 0 then
        let (x, w) = (if sint w < 0 then (int16_of (sint x + (sint w + 1)), int16_of (- sint w)) else (x, w))
        in
        if sint x < sint wd then
          let (y, h) = (if sint h < 0 then (int16_of (sint y + (sint h + 1)), int16_of (- sint h)) else (y, h))
          in
          if sint y < sint ht then
            let x2 = sint x + sint w - 1 in
            if x2 \<ge> 0 then
              let y2 = sint y + sint h - 1 in
              if y2 \<ge> 0 then
                let (x, w) = (if sint x < 0 then (0, int16_of (x2 + 1)) else (x, w));
                    (y, h) = (if sint y < 0 then (0, int16_of (y2 + 1)) else (y, h));
                    w = (if x2 \<ge> sint wd then int16_of (sint wd - sint x) else w);
                    h = (if y2 \<ge> sint ht then int16_of (sint ht - sint y) else h)
                in Some (x, y, w, h)
              else None
            else None
          else None
        else None
      else None)"

text \<open>
  One axis of \<open>SPITFT_clip\<close> on its own, for the proofs: the tests of the source touch the
  two axes in turn and never mix them.
\<close>

definition SPITFT_clip_axis :: "i16 \<Rightarrow> i16 \<Rightarrow> i16 \<Rightarrow> (i16 \<times> i16) option" where
  "SPITFT_clip_axis d x w =
     (if w = 0 then None
      else
        let (x, w) = (if sint w < 0 then (int16_of (sint x + (sint w + 1)), int16_of (- sint w)) else (x, w))
        in
        if sint x < sint d then
          let x2 = sint x + sint w - 1 in
          if x2 \<ge> 0 then
            let (x, w) = (if sint x < 0 then (0, int16_of (x2 + 1)) else (x, w));
                w = (if x2 \<ge> sint d then int16_of (sint d - sint x) else w)
            in Some (x, w)
          else None
        else None)"

definition SPITFT_writeFillRectPreclipped ::
  "i16 \<Rightarrow> i16 \<Rightarrow> i16 \<Rightarrow> i16 \<Rightarrow> u16 \<Rightarrow> 'a Adafruit_SPITFT_scheme
     \<Rightarrow> 'a Adafruit_SPITFT_scheme sink_result" where
  "SPITFT_writeFillRectPreclipped x y w h color s =
     (case SPITFT_writeColor color ((scast w :: u32) * (scast h :: u32)) s of
        Inl f \<Rightarrow> Inl f
      | Inr (evs, s') \<Rightarrow> Inr (SetAddrWindow x y w h # evs, s'))"

definition SPITFT_writeFillRect ::
  "i16 \<Rightarrow> i16 \<Rightarrow> i16 \<Rightarrow> i16 \<Rightarrow> u16 \<Rightarrow> 'a Adafruit_SPITFT_scheme
     \<Rightarrow> 'a Adafruit_SPITFT_scheme sink_result" where
  "SPITFT_writeFillRect x y w h color s =
     (case SPITFT_clip (uwidth s) (uheight s) x y w h of
        None \<Rightarrow> Inr ([], s)
      | Some (x, y, w, h) \<Rightarrow> SPITFT_writeFillRectPreclipped x y w h color s)"

definition SPITFT_fillRect ::
  "i16 \<Rightarrow> i16 \<Rightarrow> i16 \<Rightarrow> i16 \<Rightarrow> u16 \<Rightarrow> 'a Adafruit_SPITFT_scheme
     \<Rightarrow> 'a Adafruit_SPITFT_scheme sink_result" where
  "SPITFT_fillRect x y w h color s =
     (case SPITFT_clip (uwidth s) (uheight s) x y w h of
        None \<Rightarrow> Inr ([], s)
      | Some (x, y, w, h) \<Rightarrow>
          (case SPITFT_writeFillRectPreclipped x y w h color s of
             Inl f \<Rightarrow> Inl f
           | Inr (evs, s') \<Rightarrow> Inr (SPITFT_startWrite s @ evs @ SPITFT_endWrite s, s')))"

text \<open>The events of a call that returned; \<open>None\<close> for a call that ran into a fault.\<close>

definition sink_events :: "'a sink_result \<Rightarrow> spi_event list option" where
  "sink_events r = (case r of Inl f \<Rightarrow> None | Inr (evs, s) \<Rightarrow> Some evs)"

text \<open>Measures of a run of the sink: the 16-bit values sent, and the largest block transfer.\<close>

fun words_sent :: "spi_event list \<Rightarrow> nat" where
  "words_sent [] = 0"
| "words_sent (Transfer16 w # es) = 1 + words_sent es"
| "words_sent (TransferBuf ws # es) = length ws + words_sent es"
| "words_sent (e # es) = words_sent es"

fun max_block :: "spi_event list \<Rightarrow> nat" where
  "max_block [] = 0"
| "max_block (TransferBuf ws # es) = max (length ws) (max_block es)"
| "max_block (e # es) = max_block es"

fun transaction_calls :: "spi_event list \<Rightarrow> nat" where
  "transaction_calls [] = 0"
| "transaction_calls (BeginTransaction # es) = 1 + transaction_calls es"
| "transaction_calls (EndTransaction # es) = 1 + transaction_calls es"
| "transaction_calls (e # es) = transaction_calls es"

text \<open>
  Modelled from the spec: the pixels an address window stands for. \<open>setAddrWindow\<close> is
  implemented by the display driver, outside this repository; the spec's glossary has it
  declare the rectangular region that the following span writes fill in row-major order,
  and the header has \<open>x\<close>, \<open>y\<close> its top left pixel and \<open>w\<close>, \<open>h\<close> its extent.
\<close>

fun pixels_addressed :: "spi_event list \<Rightarrow> (int \<times> int) set" where
  "pixels_addressed [] = {}"
| "pixels_addressed (SetAddrWindow x y w h # es) =
     ({uint x ..< uint x + uint w} \<times> {uint y ..< uint y + uint h}) \<union> pixels_addressed es"
| "pixels_addressed (e # es) = pixels_addressed es"

text \<open>
  The rectangle a request \<open>(x, y, w, h)\<close> stands for, after the header of \<open>fillRect\<close>: a positive
  extent runs right of (below) the first corner, a negative one left of (above) it. The
  visible area of a display of width \<open>W\<close> and height \<open>H\<close>.
\<close>

definition span :: "int \<Rightarrow> int \<Rightarrow> int set" where
  "span x w = (if w < 0 then {x + w + 1 .. x} else {x ..< x + w})"

definition rect_pixels :: "int \<Rightarrow> int \<Rightarrow> int \<Rightarrow> int \<Rightarrow> (int \<times> int) set" where
  "rect_pixels x y w h = span x w \<times> span y h"

definition screen_pixels :: "int \<Rightarrow> int \<Rightarrow> (int \<times> int) set" where
  "screen_pixels W H = {0 ..< W} \<times> {0 ..< H}"

section \<open>The offscreen canvases\<close>

text \<open>
  A canvas owns a row-major buffer; \<open>None\<close> is the null pointer of a failed allocation (the
  last argument of a constructor tells whether \<open>new\<close> succeeded).
\<close>

text \<open>
  The rotation switch of \<open>drawPixel\<close>, the same in the three canvases and in
  \<open>GFXcanvas8::writeFastHLine\<close>: logical to raw coordinates.
\<close>

definition rotate_xy :: "'a Adafruit_GFX_scheme \<Rightarrow> i16 \<Rightarrow> i16 \<Rightarrow> i16 \<times> i16" where
  "rotate_xy g x y =
     (if rotation g = 1 then (int16_of (sint (WIDTH g) - 1 - sint y), x)
      else if rotation g = 2 then (int16_of (sint (WIDTH g) - 1 - sint x), int16_of (sint (HEIGHT g) - 1 - sint y))
      else if rotation g = 3 then (y, int16_of (sint (HEIGHT g) - 1 - sint x))
      else (x, y))"

definition off_canvas :: "'a Adafruit_GFX_scheme \<Rightarrow> i16 \<Rightarrow> i16 \<Rightarrow> bool" where
  "off_canvas g x y = (sint x < 0 \<or> sint y < 0 \<or> sint x \<ge> sint (uwidth g) \<or> sint y \<ge> sint (uheight g))"

record GFXcanvas1 = Adafruit_GFX +
  buffer1 :: "u8 list option"

record GFXcanvas8 = Adafruit_GFX +
  buffer8 :: "u8 list option"

record GFXcanvas16 = Adafruit_GFX +
  buffer16 :: "u16 list option"

definition GFXcanvas1_ctor :: "u16 \<Rightarrow> u16 \<Rightarrow> bool \<Rightarrow> GFXcanvas1" where
  "GFXcanvas1_ctor w h ok =
     Adafruit_GFX.extend (Adafruit_GFX_ctor w h)
       (GFXcanvas1.fields (if ok then Some (replicate (((unat w + 7) div 8) * unat h) 0) else None))"

definition GFXcanvas8_ctor :: "u16 \<Rightarrow> u16 \<Rightarrow> bool \<Rightarrow> GFXcanvas8" where
  "GFXcanvas8_ctor w h ok =
     Adafruit_GFX.extend (Adafruit_GFX_ctor w h)
       (GFXcanvas8.fields (if ok then Some (replicate (unat w * unat h) 0) else None))"

definition GFXcanvas16_ctor :: "u16 \<Rightarrow> u16 \<Rightarrow> bool \<Rightarrow> GFXcanvas16" where
  "GFXcanvas16_ctor w h ok =
     Adafruit_GFX.extend (Adafruit_GFX_ctor w h)
       (GFXcanvas16.fields (if ok then Some (replicate (unat w * unat h * 2 div 2) 0) else None))"

definition canvas1_drawPixel :: "i16 \<Rightarrow> i16 \<Rightarrow> u16 \<Rightarrow> GFXcanvas1 \<Rightarrow> fault + GFXcanvas1" where
  "canvas1_drawPixel x y color c =
     (case buffer1 c of
        None \<Rightarrow> Inr c
      | Some buf \<Rightarrow>
          if off_canvas c x y then Inr c
          else
            let (x, y) = rotate_xy c x y;
                i = sint x sdiv 8 + sint y * ((sint (WIDTH c) + 7) sdiv 8);
                m = (drop_bit (unat (x AND 7)) 0x80 :: u8)
            in (case peek buf i of
                  None \<Rightarrow> Inl OutOfBounds
                | Some b \<Rightarrow>
                    (case poke buf i (if color \<noteq> 0 then b OR m else b AND NOT m) of
                       Inl f \<Rightarrow> Inl f
                     | Inr buf' \<Rightarrow> Inr (c\<lparr>buffer1 := Some buf'\<rparr>))))"

definition canvas8_drawPixel :: "i16 \<Rightarrow> i16 \<Rightarrow> u16 \<Rightarrow> GFXcanvas8 \<Rightarrow> fault + GFXcanvas8" where
  "canvas8_drawPixel x y color c =
     (case buffer8 c of
        None \<Rightarrow> Inr c
      | Some buf \<Rightarrow>
          if off_canvas c x y then Inr c
          else
            let (x, y) = rotate_xy c x y
            in (case poke buf (sint x + sint y * sint (WIDTH c)) (ucast color) of
                  Inl f \<Rightarrow> Inl f
                | Inr buf' \<Rightarrow> Inr (c\<lparr>buffer8 := Some buf'\<rparr>)))"

definition canvas8_fillScreen :: "u16 \<Rightarrow> GFXcanvas8 \<Rightarrow> fault + GFXcanvas8" where
  "canvas8_fillScreen color c =
     (case buffer8 c of
        None \<Rightarrow> Inr c
      | Some buf \<Rightarrow>
          (case memset buf 0 (ucast color) (sint (WIDTH c) * sint (HEIGHT c)) of
             Inl f \<Rightarrow> Inl f
           | Inr buf' \<Rightarrow> Inr (c\<lparr>buffer8 := Some buf'\<rparr>)))"

definition canvas8_writeFastHLine :: "i16 \<Rightarrow> i16 \<Rightarrow> i16 \<Rightarrow> u16 \<Rightarrow> GFXcanvas8 \<Rightarrow> fault + GFXcanvas8" where
  "canvas8_writeFastHLine x y w color c =
     (case buffer8 c of
        None \<Rightarrow> Inr c
      | Some buf \<Rightarrow>
          if sint x \<ge> sint (uwidth c) \<or> sint y < 0 \<or> sint y \<ge> sint (uheight c) then Inr c
          else
            let x2 = int16_of (sint x + sint w - 1) in
            if sint x2 < 0 then Inr c
            else
              let (x, w) = (if sint x < 0 then (0, int16_of (sint x2 + 1)) else (x, w));
                  w = (if sint x2 \<ge> sint (uwidth c) then int16_of (sint (uwidth c) - sint x) else w);
                  (x, y) = rotate_xy c x y
              in (case memset buf (sint y * sint (WIDTH c) + sint x) (ucast color) (sint w) of
                    Inl f \<Rightarrow> Inl f
                  | Inr buf' \<Rightarrow> Inr (c\<lparr>buffer8 := Some buf'\<rparr>)))"

definition canvas16_drawPixel :: "i16 \<Rightarrow> i16 \<Rightarrow> u16 \<Rightarrow> GFXcanvas16 \<Rightarrow> fault + GFXcanvas16" where
  "canvas16_drawPixel x y color c =
     (case buffer16 c of
        None \<Rightarrow> Inr c
      | Some buf \<Rightarrow>
          if off_canvas c x y then Inr c
          else
            let (x, y) = rotate_xy c x y
            in (case poke buf (sint x + sint y * sint (WIDTH c)) color of
                  Inl f \<Rightarrow> Inl f
                | Inr buf' \<Rightarrow> Inr (c\<lparr>buffer16 := Some buf'\<rparr>)))"

text \<open>
  Reading the raw buffer (what \<open>getBuffer\<close> hands out) at raw coordinates: row-major, one
  element per pixel in the 8- and 16-bit canvases; in the 1-bit canvas eight pixels per
  byte, most significant bit first, each row padded to a whole byte.
\<close>

definition canvas1_raw :: "GFXcanvas1 \<Rightarrow> int \<Rightarrow> int \<Rightarrow> bool option" where
  "canvas1_raw c x y =
     (case buffer1 c of
        None \<Rightarrow> None
      | Some buf \<Rightarrow>
          map_option (\<lambda>b. bit b (7 - nat (x mod 8)))
            (peek buf (x div 8 + y * ((sint (WIDTH c) + 7) div 8))))"

definition canvas8_raw :: "GFXcanvas8 \<Rightarrow> int \<Rightarrow> int \<Rightarrow> u8 option" where
  "canvas8_raw c x y =
     (case buffer8 c of None \<Rightarrow> None | Some buf \<Rightarrow> peek buf (x + y * sint (WIDTH c)))"

definition canvas16_raw :: "GFXcanvas16 \<Rightarrow> int \<Rightarrow> int \<Rightarrow> u16 option" where
  "canvas16_raw c x y =
     (case buffer16 c of None \<Rightarrow> None | Some buf \<Rightarrow> peek buf (x + y * sint (WIDTH c)))"

definition after :: "fault + 'c \<Rightarrow> ('c \<Rightarrow> 'a option) \<Rightarrow> 'a option" where
  "after r f = (case r of Inl e \<Rightarrow> None | Inr c \<Rightarrow> f c)"

text \<open>
  The reference for a horizontal span on the 8-bit canvas, in the spec's words: \<open>n\<close>
  individual \<open>drawPixel\<close> calls at the logical coordinates \<open>(x + i, y)\<close>, \<open>i\<close> from \<open>0\<close>.
\<close>

fun canvas8_pixel_run :: "nat \<Rightarrow> i16 \<Rightarrow> i16 \<Rightarrow> u16 \<Rightarrow> GFXcanvas8 \<Rightarrow> fault + GFXcanvas8" where
  "canvas8_pixel_run 0 x y color c = Inr c"
| "canvas8_pixel_run (Suc n) x y color c =
     (case canvas8_drawPixel x y color c of
        Inl f \<Rightarrow> Inl f
      | Inr c' \<Rightarrow> canvas8_pixel_run n (x + 1) y color c')"

definition canvas8_hline_per_pixel :: "i16 \<Rightarrow> i16 \<Rightarrow> i16 \<Rightarrow> u16 \<Rightarrow> GFXcanvas8 \<Rightarrow> fault + GFXcanvas8" where
  "canvas8_hline_per_pixel x y w color c = canvas8_pixel_run (nat (sint w)) x y color c"

text \<open>
  A run of member calls on an 8-bit canvas: the state-changing members of the base class and
  the drawing members of the canvas. It stops at the first fault.
\<close>

datatype canvas8_op =
    Configure gfx_op
  | DrawPixel8 i16 i16 u16
  | FillScreen8 u16
  | WriteFastHLine8 i16 i16 i16 u16

fun canvas8_apply :: "canvas8_op \<Rightarrow> GFXcanvas8 \<Rightarrow> fault + GFXcanvas8" where
  "canvas8_apply (Configure c) cv = Inr (apply_op c cv)"
| "canvas8_apply (DrawPixel8 x y color) cv = canvas8_drawPixel x y color cv"
| "canvas8_apply (FillScreen8 color) cv = canvas8_fillScreen color cv"
| "canvas8_apply (WriteFastHLine8 x y w color) cv = canvas8_writeFastHLine x y w color cv"

fun canvas8_run :: "canvas8_op list \<Rightarrow> GFXcanvas8 \<Rightarrow> fault + GFXcanvas8" where
  "canvas8_run [] cv = Inr cv"
| "canvas8_run (c # cs) cv =
     (case canvas8_apply c cv of Inl f \<Rightarrow> Inl f | Inr cv' \<Rightarrow> canvas8_run cs cv')"

fun canvas8_config :: "canvas8_op list \<Rightarrow> gfx_op list" where
  "canvas8_config [] = []"
| "canvas8_config (Configure c # cs) = c # canvas8_config cs"
| "canvas8_config (c # cs) = canvas8_config cs"

definition Adafruit_SPITFT_ctor ::
  "u16 \<Rightarrow> u16 \<Rightarrow> 8 word \<Rightarrow> 8 word \<Rightarrow> 8 word \<Rightarrow> u16 list \<Rightarrow> Adafruit_SPITFT" where
  "Adafruit_SPITFT_ctor w h cs dc rst buf =
     Adafruit_GFX.extend (Adafruit_GFX_ctor w h) (Adafruit_SPITFT.fields rst cs dc buf)"

definition rotation_inv :: "'a Adafruit_GFX_scheme \<Rightarrow> bool" where
  "rotation_inv g = ((uwidth g, uheight g) =
     (if even (unat (rotation g)) then (WIDTH g, HEIGHT g) else (HEIGHT g, WIDTH g)))"

section \<open>Properties\<close>

section \<open>Facts about 16-bit words\<close>

lemma sint16_of_int: "- 32768 \<le> v \<Longrightarrow> v < 32768 \<Longrightarrow> sint (word_of_int v :: 16 word) = v"
  by (simp add: sint_sbintrunc' signed_take_bit_int_eq_self)

lemma sint16_bounds: "- 32768 \<le> sint (x :: 16 word)" "sint x < 32768"
  using sint_ge [of x] sint_lt [of x] by simp_all

lemma uint16_of_nonneg: "0 \<le> sint (w :: 16 word) \<Longrightarrow> uint w = sint w"
proof -
  assume nn: "0 \<le> sint w"
  have "uint w = uint (word_of_int (sint w) :: 16 word)" by simp
  also have "\<dots> = take_bit 16 (sint w)" by (simp only: uint_word_of_int_eq, simp)
  also have "\<dots> = sint w"
    using nn sint16_bounds(2) [of w] by (simp add: take_bit_int_eq_self)
  finally show ?thesis .
qed

lemma unat16_of_nonneg: "0 \<le> sint (w :: 16 word) \<Longrightarrow> int (unat w) = sint w"
  using uint16_of_nonneg [of w] unfolding uint_nat .

lemma cell_in_range:
  fixes x y W H :: int
  assumes "0 \<le> x" "x < W" "0 \<le> y" "y < H"
  shows "0 \<le> x + y * W" "x + y * W < W * H"
proof -
  show "0 \<le> x + y * W" using assms by simp
  have "x + y * W < W + y * W" using assms by simp
  also have "\<dots> = (y + 1) * W" by (simp add: algebra_simps)
  also have "\<dots> \<le> H * W" using assms by (intro mult_right_mono) simp_all
  finally show "x + y * W < W * H" by (simp add: mult.commute)
qed

section \<open>Colour packing\<close>

lemma const_F8: "(0xF8 :: u32) = push_bit 3 (mask 5)"
  by (simp add: mask_eq_exp_minus_1 push_bit_eq_mult)

lemma const_FC: "(0xFC :: u32) = push_bit 2 (mask 6)"
  by (simp add: mask_eq_exp_minus_1 push_bit_eq_mult)

lemma red_field:
  "push_bit 8 ((ucast (r :: u8) :: u32) AND 0xF8) = push_bit 11 (drop_bit 3 (ucast r))"
  unfolding const_F8
  by (rule bit_word_eqI) (auto simp add: bit_simps dest: bit_imp_le_length)

lemma green_index: "5 \<le> n \<Longrightarrow> Suc (Suc (n - 5)) = n - 3"
  by arith

lemma green_field:
  "push_bit 3 ((ucast (g :: u8) :: u32) AND 0xFC) = push_bit 5 (drop_bit 2 (ucast g))"
  unfolding const_FC
  by (rule bit_word_eqI) (auto simp add: bit_simps green_index dest: bit_imp_le_length)

lemma fields_disjoint:
  "push_bit 11 (drop_bit 3 (ucast (r :: u8) :: u32)) OR push_bit 5 (drop_bit 2 (ucast (g :: u8)))
     OR drop_bit 3 (ucast (b :: u8))
   = push_bit 11 (drop_bit 3 (ucast r)) + (push_bit 5 (drop_bit 2 (ucast g)) + drop_bit 3 (ucast b))"
proof -
  have low: "push_bit 5 (drop_bit 2 (ucast g :: u32)) OR drop_bit 3 (ucast b)
      = push_bit 5 (drop_bit 2 (ucast g)) + drop_bit 3 (ucast b)"
    by (rule disjunctive_add [symmetric]) (auto simp add: bit_simps dest: bit_imp_le_length)
  have high: "push_bit 11 (drop_bit 3 (ucast r :: u32))
        OR (push_bit 5 (drop_bit 2 (ucast g :: u32)) OR drop_bit 3 (ucast b))
      = push_bit 11 (drop_bit 3 (ucast r :: u32))
        + (push_bit 5 (drop_bit 2 (ucast g :: u32)) OR drop_bit 3 (ucast b))"
    by (rule disjunctive_add [symmetric]) (auto simp add: bit_simps dest: bit_imp_le_length)
  show ?thesis using low high by (simp add: or.assoc)
qed

lemma unat_ucast_u8_u32: "unat (ucast (w :: u8) :: u32) = unat w"
proof -
  have "unat w < 2 ^ 8" using unsigned_less [of w, where ?'a = nat] by simp
  then have "unat w < 2 ^ 32" by simp
  then show ?thesis by (simp add: unsigned_ucast_eq take_bit_nat_eq_self)
qed

text \<open>
  Claim C10. For all 8-bit channel values, \<open>color565 red green blue\<close> is
  \<open>(red div 8) * 2 ^ 11 + (green div 4) * 2 ^ 5 + blue div 8\<close>: the top 5, 6 and 5 bits of the
  channels packed into 16 bits, truncation being the only rounding. The function reads and
  writes no state: it is a function of its three arguments.
\<close>

theorem color565_packs_565:
  "unat (color565 red green blue)
     = (unat red div 8) * 2 ^ 11 + (unat green div 4) * 2 ^ 5 + unat blue div 8"
proof -
  have r: "unat red < 256" and g: "unat green < 256" and b: "unat blue < 256"
    using unsigned_less [of red, where ?'a = nat] unsigned_less [of green, where ?'a = nat]
      unsigned_less [of blue, where ?'a = nat] by simp_all
  define R where "R = unat red div 8"
  define G where "G = unat green div 4"
  define B where "B = unat blue div 8"
  have bounds: "R < 32" "G < 64" "B < 32"
    using r g b by (simp_all add: R_def G_def B_def)
  have R: "drop_bit 3 (ucast red :: u32) = of_nat R"
    by (rule word_unat_eq_iff [THEN iffD2])
      (use bounds in \<open>simp add: unat_drop_bit_eq unat_div unat_ucast_u8_u32 drop_bit_eq_div R_def unat_of_nat\<close>)
  have G: "drop_bit 2 (ucast green :: u32) = of_nat G"
    by (rule word_unat_eq_iff [THEN iffD2])
      (use bounds in \<open>simp add: unat_drop_bit_eq unat_div unat_ucast_u8_u32 drop_bit_eq_div G_def unat_of_nat\<close>)
  have B: "drop_bit 3 (ucast blue :: u32) = of_nat B"
    by (rule word_unat_eq_iff [THEN iffD2])
      (use bounds in \<open>simp add: unat_drop_bit_eq unat_div unat_ucast_u8_u32 drop_bit_eq_div B_def unat_of_nat\<close>)
  define N where "N = R * 2048 + G * 32 + B"
  have N: "N < 65536" using bounds by (simp add: N_def)
  have "color565 red green blue
      = ucast (push_bit 11 (drop_bit 3 (ucast red :: u32))
          + (push_bit 5 (drop_bit 2 (ucast green)) + drop_bit 3 (ucast blue)))"
    unfolding color565_def red_field green_field fields_disjoint ..
  also have "\<dots> = ucast (of_nat N :: u32)"
    unfolding R G B N_def by (simp add: push_bit_eq_mult add.assoc)
  finally have "unat (color565 red green blue) = unat (ucast (of_nat N :: u32) :: u16)"
    by simp
  also have "\<dots> = N"
    using N by (simp add: unsigned_ucast_eq unat_of_nat take_bit_nat_eq_self)
  finally show ?thesis by (simp add: N_def R_def G_def B_def)
qed

section \<open>Rotation\<close>

lemma and3_cases: "(x AND 3 :: u8) = 0 \<or> x AND 3 = 1 \<or> x AND 3 = 2 \<or> x AND 3 = 3"
proof -
  have "x AND 3 \<le> 3" by (rule word_and_le1)
  then have "unat (x AND 3) \<le> 3" by (simp add: word_le_nat_alt)
  then have "unat (x AND 3) = 0 \<or> unat (x AND 3) = 1 \<or> unat (x AND 3) = 2 \<or> unat (x AND 3) = 3"
    by arith
  then show ?thesis
    by (auto simp add: word_unat_eq_iff)
qed

lemma unat_and3: "unat (x AND 3 :: u8) = unat x mod 4"
proof -
  have "(3 :: u8) = mask 2" by (simp add: mask_eq_exp_minus_1)
  then have "x AND 3 = take_bit 2 x" by (simp add: take_bit_eq_mask)
  then show ?thesis by (simp add: take_bit_eq_mod unat_mod)
qed

lemma setRotation_fields:
  "rotation (setRotation x g) = x AND 3"
  "WIDTH (setRotation x g) = WIDTH g"
  "HEIGHT (setRotation x g) = HEIGHT g"
  using and3_cases [of x] by (auto simp add: setRotation_def Let_def)

lemma setRotation_inv: "rotation_inv (setRotation x g)"
  using and3_cases [of x] by (auto simp add: setRotation_def Let_def rotation_inv_def)

lemma apply_op_raw: "WIDTH (apply_op c g) = WIDTH g" "HEIGHT (apply_op c g) = HEIGHT g"
  by (cases c; simp add: setRotation_fields setCursor_def setTextColor_def setTextColorBg_def
      setTextSize_def setTextWrap_def cp437_def setFont_def Let_def split: option.split)+

lemma apply_op_rotation:
  "rotation (apply_op c g) = (case c of SetRotation r \<Rightarrow> r AND 3 | _ \<Rightarrow> rotation g)"
  by (cases c; simp add: setRotation_fields setCursor_def setTextColor_def setTextColorBg_def
      setTextSize_def setTextWrap_def cp437_def setFont_def Let_def split: option.split)

lemma apply_op_inv:
  assumes "rotation_inv g"
  shows "rotation_inv (apply_op c g)"
proof (cases c)
  case (SetRotation r)
  then show ?thesis by (simp add: setRotation_inv)
qed (use assms in \<open>auto simp add: rotation_inv_def setCursor_def setTextColor_def
        setTextColorBg_def setTextSize_def setTextWrap_def cp437_def setFont_def Let_def
        split: option.splits if_splits\<close>)

lemma run_ops_raw: "WIDTH (run_ops cs g) = WIDTH g \<and> HEIGHT (run_ops cs g) = HEIGHT g"
  by (induction cs arbitrary: g) (simp_all add: apply_op_raw)

lemma run_ops_inv: "rotation_inv g \<Longrightarrow> rotation_inv (run_ops cs g)"
  by (induction cs arbitrary: g) (simp_all add: apply_op_inv)

lemma run_ops_rotation:
  "rotation (run_ops cs g) =
     (if rotation_requests cs = [] then rotation g else last (rotation_requests cs) AND 3)"
proof (induction cs arbitrary: g)
  case Nil
  show ?case by simp
next
  case (Cons c cs)
  show ?case by (cases c) (simp_all add: Cons.IH apply_op_rotation del: apply_op.simps)
qed

lemma ctor_inv: "rotation_inv (Adafruit_GFX_ctor W H)"
  by (simp add: rotation_inv_def Adafruit_GFX_ctor_def)

lemma truncate_apply_op:
  "Adafruit_GFX.truncate (apply_op c g) = apply_op c (Adafruit_GFX.truncate g)"
  by (cases c)
     (auto simp add: Adafruit_GFX.truncate_def setRotation_def setCursor_def setTextColor_def
        setTextColorBg_def setTextSize_def setTextWrap_def cp437_def setFont_def Let_def
        split: option.splits if_splits)

lemma canvas8_apply_truncate:
  assumes "canvas8_apply c cv = Inr cv'"
  shows "Adafruit_GFX.truncate cv' =
       (case c of Configure k \<Rightarrow> apply_op k (Adafruit_GFX.truncate cv) | _ \<Rightarrow> Adafruit_GFX.truncate cv)"
proof (cases c)
  case (Configure k)
  then show ?thesis using assms by (auto simp add: truncate_apply_op)
qed (use assms in \<open>auto simp add: canvas8_drawPixel_def canvas8_fillScreen_def
        canvas8_writeFastHLine_def Adafruit_GFX.truncate_def Let_def
        split: option.splits if_splits sum.splits prod.splits\<close>)

lemma canvas8_run_truncate:
  "canvas8_run cs cv = Inr cv' \<Longrightarrow>
     Adafruit_GFX.truncate cv' = run_ops (canvas8_config cs) (Adafruit_GFX.truncate cv)"
proof (induction cs arbitrary: cv)
  case Nil
  then show ?case by simp
next
  case (Cons c cs)
  from Cons.prems obtain cv1 where 1: "canvas8_apply c cv = Inr cv1" and 2: "canvas8_run cs cv1 = Inr cv'"
    by (auto split: sum.splits)
  from Cons.IH [OF 2] canvas8_apply_truncate [OF 1] show ?case
    by (cases c) simp_all
qed

lemma truncate_canvas8_ctor:
  "Adafruit_GFX.truncate (GFXcanvas8_ctor W H ok) = Adafruit_GFX_ctor W H"
  by (simp add: GFXcanvas8_ctor_def Adafruit_GFX.truncate_def Adafruit_GFX.extend_def Adafruit_GFX_ctor_def)

text \<open>
  Claim C4. For a context constructed with raw dimensions \<open>(W, H)\<close> and any sequence of calls
  of its state-changing members: \<open>rotation\<close> is the argument of the last \<open>setRotation\<close> call
  modulo 4 (0 when there was none), the rotation-adjusted \<open>(_width, _height)\<close> is \<open>(W, H)\<close>
  when the rotation is even and \<open>(H, W)\<close> when it is odd, and the raw dimensions never
  change. No other member changes them: the other setters are part of the sequence, and on
  an 8-bit canvas the drawing members, interleaved in any order, leave the whole base-class
  state as the setters alone made it.
\<close>

theorem rotation_state_invariant:
  "unat (rotation (run_ops cs (Adafruit_GFX_ctor W H))) =
     (if rotation_requests cs = [] then 0 else unat (last (rotation_requests cs)) mod 4)
   \<and> (uwidth (run_ops cs (Adafruit_GFX_ctor W H)), uheight (run_ops cs (Adafruit_GFX_ctor W H))) =
     (if even (unat (rotation (run_ops cs (Adafruit_GFX_ctor W H)))) then (W, H) else (H, W))
   \<and> WIDTH (run_ops cs (Adafruit_GFX_ctor W H)) = W
   \<and> HEIGHT (run_ops cs (Adafruit_GFX_ctor W H)) = H
   \<and> (canvas8_run ds (GFXcanvas8_ctor W H ok) = Inr cv \<longrightarrow>
        Adafruit_GFX.truncate cv = run_ops (canvas8_config ds) (Adafruit_GFX_ctor W H))"
proof -
  let ?g = "run_ops cs (Adafruit_GFX_ctor W H)"
  have raw: "WIDTH ?g = W" "HEIGHT ?g = H"
    using run_ops_raw [of cs "Adafruit_GFX_ctor W H"] by (simp_all add: Adafruit_GFX_ctor_def)
  have rot: "unat (rotation ?g) =
     (if rotation_requests cs = [] then 0 else unat (last (rotation_requests cs)) mod 4)"
    by (simp add: run_ops_rotation unat_and3) (simp add: Adafruit_GFX_ctor_def)
  have "rotation_inv ?g" by (rule run_ops_inv [OF ctor_inv])
  then have dims: "(uwidth ?g, uheight ?g) = (if even (unat (rotation ?g)) then (W, H) else (H, W))"
    by (simp add: rotation_inv_def raw)
  have frame: "canvas8_run ds (GFXcanvas8_ctor W H ok) = Inr cv \<longrightarrow>
        Adafruit_GFX.truncate cv = run_ops (canvas8_config ds) (Adafruit_GFX_ctor W H)"
    using canvas8_run_truncate [of ds "GFXcanvas8_ctor W H ok" cv] by (simp add: truncate_canvas8_ctor)
  from rot dims raw frame show ?thesis by blast
qed

theorem rotation_state_invariant_witness:
  "canvas8_run [Configure (SetRotation 7), DrawPixel8 0 0 5, Configure (SetCursor 1 1), FillScreen8 9]
      (GFXcanvas8_ctor 2 3 True)
     = Inr (setCursor 1 1 (setRotation 7 (GFXcanvas8_ctor 2 3 True))\<lparr>buffer8 := Some [9, 9, 9, 9, 9, 9]\<rparr>)
   \<and> unat (rotation (run_ops [SetRotation 7, SetCursor 1 1] (Adafruit_GFX_ctor 2 3))) = 3
   \<and> (uwidth (run_ops [SetRotation 7, SetCursor 1 1] (Adafruit_GFX_ctor 2 3)),
       uheight (run_ops [SetRotation 7, SetCursor 1 1] (Adafruit_GFX_ctor 2 3))) = (3, 2)
   \<and> Adafruit_GFX.truncate
        (setCursor 1 1 (setRotation 7 (GFXcanvas8_ctor 2 3 True))\<lparr>buffer8 := Some [9, 9, 9, 9, 9, 9]\<rparr>)
      = run_ops [SetRotation 7, SetCursor 1 1] (Adafruit_GFX_ctor 2 3)"
proof -
  let ?cs = "[SetRotation 7, SetCursor 1 1]"
  let ?ds = "[Configure (SetRotation 7), DrawPixel8 0 0 5, Configure (SetCursor 1 1), FillScreen8 9]"
  let ?cv = "setCursor 1 1 (setRotation 7 (GFXcanvas8_ctor 2 3 True))\<lparr>buffer8 := Some [9, 9, 9, 9, 9, 9]\<rparr>"
  have run: "canvas8_run ?ds (GFXcanvas8_ctor 2 3 True) = Inr ?cv"
    by code_simp
  note t = rotation_state_invariant [of ?cs 2 3 ?ds True ?cv]
  from t have r: "unat (rotation (run_ops ?cs (Adafruit_GFX_ctor 2 3))) = 3"
    by simp
  from t have "(uwidth (run_ops ?cs (Adafruit_GFX_ctor 2 3)), uheight (run_ops ?cs (Adafruit_GFX_ctor 2 3))) =
     (if even (unat (rotation (run_ops ?cs (Adafruit_GFX_ctor 2 3)))) then (2, 3) else (3, 2))"
    by blast
  then have d: "(uwidth (run_ops ?cs (Adafruit_GFX_ctor 2 3)), uheight (run_ops ?cs (Adafruit_GFX_ctor 2 3))) = (3, 2)"
    unfolding r by simp
  from t run have f: "Adafruit_GFX.truncate ?cv = run_ops (canvas8_config ?ds) (Adafruit_GFX_ctor 2 3)"
    by blast
  from run r d f show ?thesis by simp
qed

section \<open>Drawing a pixel on a canvas\<close>

text \<open>
  Claim C9. On each of the three offscreen canvases, \<open>drawPixel\<close> called with coordinates
  outside \<open>[0, _width) \<times> [0, _height)\<close> (the bounds at the current rotation), or on a canvas
  whose buffer is null, returns normally and leaves the canvas, its buffer included, exactly
  as it was: no fault, no error value, no other effect.
\<close>

theorem drawPixel_rejects_off_canvas:
  "(buffer1 c1 = None \<or> off_canvas c1 x y \<longrightarrow> canvas1_drawPixel x y color c1 = Inr c1)
   \<and> (buffer8 c8 = None \<or> off_canvas c8 x y \<longrightarrow> canvas8_drawPixel x y color c8 = Inr c8)
   \<and> (buffer16 c16 = None \<or> off_canvas c16 x y \<longrightarrow> canvas16_drawPixel x y color c16 = Inr c16)"
  by (simp add: canvas1_drawPixel_def canvas8_drawPixel_def canvas16_drawPixel_def split: option.split)

theorem drawPixel_rejects_off_canvas_witness:
  "off_canvas (setRotation 1 (GFXcanvas1_ctor 2 3 True)) 0 2
   \<and> canvas1_drawPixel 0 2 1 (setRotation 1 (GFXcanvas1_ctor 2 3 True)) = Inr (setRotation 1 (GFXcanvas1_ctor 2 3 True))
   \<and> off_canvas (GFXcanvas8_ctor 2 3 True) (- 1) 0
   \<and> canvas8_drawPixel (- 1) 0 7 (GFXcanvas8_ctor 2 3 True) = Inr (GFXcanvas8_ctor 2 3 True)
   \<and> buffer16 (GFXcanvas16_ctor 2 3 False) = None
   \<and> canvas16_drawPixel 0 0 7 (GFXcanvas16_ctor 2 3 False) = Inr (GFXcanvas16_ctor 2 3 False)"
proof -
  have a: "off_canvas (setRotation 1 (GFXcanvas1_ctor 2 3 True)) 0 2" by code_simp
  have b: "off_canvas (GFXcanvas8_ctor 2 3 True) (- 1) 0" by code_simp
  have c: "buffer16 (GFXcanvas16_ctor 2 3 False) = None" by code_simp
  from a b c drawPixel_rejects_off_canvas [of "setRotation 1 (GFXcanvas1_ctor 2 3 True)" 0 2 1
      "GFXcanvas8_ctor 2 3 True" "GFXcanvas16_ctor 2 3 False"]
    drawPixel_rejects_off_canvas [of "setRotation 1 (GFXcanvas1_ctor 2 3 True)" "- 1" 0 7
      "GFXcanvas8_ctor 2 3 True" "GFXcanvas16_ctor 2 3 False"]
    drawPixel_rejects_off_canvas [of "setRotation 1 (GFXcanvas1_ctor 2 3 True)" 0 0 7
      "GFXcanvas8_ctor 2 3 True" "GFXcanvas16_ctor 2 3 False"]
  show ?thesis by blast
qed

lemma poke_peek:
  "0 \<le> i \<Longrightarrow> i < int (length buf) \<Longrightarrow>
     poke buf i v = Inr (buf[nat i := v]) \<and> peek (buf[nat i := v]) i = Some v \<and> peek buf i = Some (buf ! nat i)"
  by (simp add: poke_def peek_def)

lemma canvas16_drawPixel_raw:
  assumes buf: "buffer16 c = Some buf"
    and on: "\<not> off_canvas c x y"
    and rot: "rotate_xy c x y = (rx, ry)"
    and rng: "0 \<le> sint rx" "sint rx < sint (WIDTH c)" "0 \<le> sint ry" "sint ry < sint (HEIGHT c)"
    and len: "int (length buf) = sint (WIDTH c) * sint (HEIGHT c)"
  shows "after (canvas16_drawPixel x y color c) (\<lambda>c'. canvas16_raw c' (sint rx) (sint ry)) = Some color"
proof -
  let ?i = "sint rx + sint ry * sint (WIDTH c)"
  have i: "0 \<le> ?i" "?i < int (length buf)"
    using cell_in_range [OF rng] by (simp_all add: len)
  show ?thesis
    using poke_peek [OF i, of color]
    by (simp add: canvas16_drawPixel_def buf on rot after_def canvas16_raw_def)
qed

lemma canvas8_drawPixel_raw:
  assumes buf: "buffer8 c = Some buf"
    and on: "\<not> off_canvas c x y"
    and rot: "rotate_xy c x y = (rx, ry)"
    and rng: "0 \<le> sint rx" "sint rx < sint (WIDTH c)" "0 \<le> sint ry" "sint ry < sint (HEIGHT c)"
    and len: "int (length buf) = sint (WIDTH c) * sint (HEIGHT c)"
  shows "after (canvas8_drawPixel x y color c) (\<lambda>c'. canvas8_raw c' (sint rx) (sint ry)) = Some (ucast color)"
proof -
  let ?i = "sint rx + sint ry * sint (WIDTH c)"
  have i: "0 \<le> ?i" "?i < int (length buf)"
    using cell_in_range [OF rng] by (simp_all add: len)
  show ?thesis
    using poke_peek [OF i, of "ucast color"]
    by (simp add: canvas8_drawPixel_def buf on rot after_def canvas8_raw_def)
qed

lemma sdiv_nonneg: "0 \<le> a \<Longrightarrow> 0 < b \<Longrightarrow> a sdiv b = a div (b :: int)"
  by (simp add: signed_divide_int_def sgn_if)

lemma bit_mask_cases: "k < 8 \<Longrightarrow> drop_bit k (0x80 :: u8) = 2 ^ (7 - k)"
proof -
  assume "k < 8"
  then have "k = 0 \<or> k = 1 \<or> k = 2 \<or> k = 3 \<or> k = 4 \<or> k = 5 \<or> k = 6 \<or> k = 7" by arith
  then show ?thesis by (elim disjE) (simp_all add: drop_bit_eq_div)
qed

lemma set_clear_bit:
  "k < 8 \<Longrightarrow> bit ((b :: u8) OR drop_bit k 0x80) (7 - k)"
  "k < 8 \<Longrightarrow> \<not> bit ((b :: u8) AND NOT (drop_bit k 0x80)) (7 - k)"
  by (auto simp add: bit_mask_cases bit_simps)

lemma unat_and7: "unat ((w :: 16 word) AND 7) = unat w mod 8"
proof -
  have "(7 :: 16 word) = mask 3" by (simp add: mask_eq_exp_minus_1)
  then have "w AND 7 = take_bit 3 w" by (simp add: take_bit_eq_mask)
  then show ?thesis by (simp add: take_bit_eq_mod unat_mod)
qed

lemma low3_of_nonneg: "0 \<le> sint (w :: 16 word) \<Longrightarrow> unat (w AND 7) = nat (sint w mod 8)"
proof -
  assume nn: "0 \<le> sint w"
  have "int (unat w mod 8) = sint w mod 8"
    using unat16_of_nonneg [OF nn] by (simp add: zmod_int)
  then show ?thesis by (simp add: unat_and7)
qed

lemma canvas1_drawPixel_raw:
  assumes buf: "buffer1 c = Some buf"
    and on: "\<not> off_canvas c x y"
    and rot: "rotate_xy c x y = (rx, ry)"
    and rng: "0 \<le> sint rx" "sint rx < sint (WIDTH c)" "0 \<le> sint ry" "sint ry < sint (HEIGHT c)"
    and len: "int (length buf) = ((sint (WIDTH c) + 7) div 8) * sint (HEIGHT c)"
  shows "after (canvas1_drawPixel x y color c) (\<lambda>c'. canvas1_raw c' (sint rx) (sint ry)) = Some (color \<noteq> 0)"
proof -
  let ?stride = "(sint (WIDTH c) + 7) div 8"
  let ?i = "sint rx div 8 + sint ry * ?stride"
  let ?k = "unat (rx AND 7)"
  have col: "0 \<le> sint rx div 8" "sint rx div 8 < ?stride"
    using rng by simp_all
  have i: "0 \<le> ?i" "?i < int (length buf)"
    using cell_in_range [OF col rng(3,4)] by (simp_all add: len)
  have k: "?k < 8" by (simp add: unat_and7)
  have kk: "nat (sint rx mod 8) = ?k" using low3_of_nonneg [OF rng(1)] by simp
  have sd: "sint rx sdiv 8 = sint rx div 8" "(sint (WIDTH c) + 7) sdiv 8 = ?stride"
    using rng by (simp_all add: sdiv_nonneg)
  show ?thesis
  proof (cases "color = 0")
    case True
    with poke_peek [OF i, of "(buf ! nat ?i) AND NOT (drop_bit ?k 0x80)"] set_clear_bit(2) [OF k]
    show ?thesis
      by (simp add: canvas1_drawPixel_def buf on rot after_def canvas1_raw_def sd kk Let_def)
  next
    case False
    with poke_peek [OF i, of "(buf ! nat ?i) OR (drop_bit ?k 0x80)"] set_clear_bit(1) [OF k]
    show ?thesis
      by (simp add: canvas1_drawPixel_def buf on rot after_def canvas1_raw_def sd kk Let_def)
  qed
qed

lemma canvas_after_ctor:
  "buffer16 (setRotation r (GFXcanvas16_ctor W H True)) = Some (replicate (unat W * unat H * 2 div 2) 0)"
  "buffer8 (setRotation r (GFXcanvas8_ctor W H True)) = Some (replicate (unat W * unat H) 0)"
  "buffer1 (setRotation r (GFXcanvas1_ctor W H True)) = Some (replicate (((unat W + 7) div 8) * unat H) 0)"
  "WIDTH (setRotation r (GFXcanvas16_ctor W H ok)) = W" "HEIGHT (setRotation r (GFXcanvas16_ctor W H ok)) = H"
  "WIDTH (setRotation r (GFXcanvas8_ctor W H ok)) = W" "HEIGHT (setRotation r (GFXcanvas8_ctor W H ok)) = H"
  "WIDTH (setRotation r (GFXcanvas1_ctor W H ok)) = W" "HEIGHT (setRotation r (GFXcanvas1_ctor W H ok)) = H"
  "rotation (setRotation r c) = r AND 3"
  by (simp_all add: setRotation_def Let_def GFXcanvas16_ctor_def GFXcanvas8_ctor_def GFXcanvas1_ctor_def
      Adafruit_GFX_ctor_def Adafruit_GFX.extend_def GFXcanvas16.fields_def GFXcanvas8.fields_def
      GFXcanvas1.fields_def)

lemma ctor_dims:
  "WIDTH (GFXcanvas16_ctor W H ok) = W" "HEIGHT (GFXcanvas16_ctor W H ok) = H"
  "WIDTH (GFXcanvas8_ctor W H ok) = W" "HEIGHT (GFXcanvas8_ctor W H ok) = H"
  "WIDTH (GFXcanvas1_ctor W H ok) = W" "HEIGHT (GFXcanvas1_ctor W H ok) = H"
  by (simp_all add: GFXcanvas16_ctor_def GFXcanvas8_ctor_def GFXcanvas1_ctor_def
      Adafruit_GFX_ctor_def Adafruit_GFX.extend_def)

lemma canvas_even_dims:
  "r = 0 \<or> r = 2 \<Longrightarrow> uwidth (setRotation r c) = WIDTH c \<and> uheight (setRotation r c) = HEIGHT c"
  by (auto simp add: setRotation_def Let_def)

lemma rotate_xy_0_2:
  "rotate_xy (setRotation 0 c) x y = (x, y)"
  "rotate_xy (setRotation 2 c) x y
     = (int16_of (sint (WIDTH c) - 1 - sint x), int16_of (sint (HEIGHT c) - 1 - sint y))"
  by (simp_all add: rotate_xy_def setRotation_def Let_def)


text \<open>
  Claim C5. Rotation round trip on an offscreen canvas with raw dimensions \<open>(W, H)\<close>: for
  every logical position \<open>(x, y)\<close> in bounds and every colour, \<open>drawPixel x y colour\<close> at
  rotation 0 followed by a read of the raw buffer at \<open>(x, y)\<close> yields the same value as
  \<open>drawPixel x y colour\<close> at rotation 2 on a fresh identical canvas followed by a read of the
  raw buffer at \<open>(W - 1 - x, H - 1 - y)\<close>. Both reads succeed and yield the colour as the
  canvas stores it: the colour itself (16 bits), its low byte (8 bits), whether it is
  nonzero (1 bit).
\<close>

theorem rotation_round_trip:
  assumes "0 \<le> sint x" "sint x < sint W" "0 \<le> sint y" "sint y < sint H"
  shows "after (canvas16_drawPixel x y color (setRotation 0 (GFXcanvas16_ctor W H True)))
           (\<lambda>c. canvas16_raw c (sint x) (sint y)) = Some color
       \<and> after (canvas16_drawPixel x y color (setRotation 2 (GFXcanvas16_ctor W H True)))
           (\<lambda>c. canvas16_raw c (sint W - 1 - sint x) (sint H - 1 - sint y)) = Some color
       \<and> after (canvas8_drawPixel x y color (setRotation 0 (GFXcanvas8_ctor W H True)))
           (\<lambda>c. canvas8_raw c (sint x) (sint y)) = Some (ucast color)
       \<and> after (canvas8_drawPixel x y color (setRotation 2 (GFXcanvas8_ctor W H True)))
           (\<lambda>c. canvas8_raw c (sint W - 1 - sint x) (sint H - 1 - sint y)) = Some (ucast color)
       \<and> after (canvas1_drawPixel x y color (setRotation 0 (GFXcanvas1_ctor W H True)))
           (\<lambda>c. canvas1_raw c (sint x) (sint y)) = Some (color \<noteq> 0)
       \<and> after (canvas1_drawPixel x y color (setRotation 2 (GFXcanvas1_ctor W H True)))
           (\<lambda>c. canvas1_raw c (sint W - 1 - sint x) (sint H - 1 - sint y)) = Some (color \<noteq> 0)"
proof -
  have W: "0 \<le> sint W" "uint W = sint W" and H: "0 \<le> sint H" "uint H = sint H"
    using assms uint16_of_nonneg [of W] uint16_of_nonneg [of H] by simp_all
  define rx where "rx = (int16_of (sint W - 1 - sint x))"
  define ry where "ry = (int16_of (sint H - 1 - sint y))"
  have rx: "sint rx = sint W - 1 - sint x" unfolding rx_def
    using assms sint16_bounds [of W] by (intro sint16_of_int) simp_all
  have ry: "sint ry = sint H - 1 - sint y" unfolding ry_def
    using assms sint16_bounds [of H] by (intro sint16_of_int) simp_all
  have r: "0 \<le> sint rx" "sint rx < sint W" "0 \<le> sint ry" "sint ry < sint H"
    using assms by (simp_all add: rx ry)
  have on: "\<not> off_canvas (setRotation 0 c) x y" "\<not> off_canvas (setRotation 2 c) x y"
    if "WIDTH c = W" "HEIGHT c = H" for c :: "'a Adafruit_GFX_scheme"
    using assms that canvas_even_dims [of 0 c] canvas_even_dims [of 2 c]
    by (simp_all add: off_canvas_def)
  have len16: "int (length (replicate (unat W * unat H * 2 div 2) (0 :: u16))) = sint W * sint H"
    using W H by simp
  have len8: "int (length (replicate (unat W * unat H) (0 :: u8))) = sint W * sint H"
    using W H by simp
  have stride: "int ((unat W + 7) div 8) = (sint W + 7) div 8"
    using W by (simp add: zdiv_int)
  have len1: "int (length (replicate (((unat W + 7) div 8) * unat H) (0 :: u8))) = ((sint W + 7) div 8) * sint H"
    using stride H by simp
  have a16: "after (canvas16_drawPixel x y color (setRotation 0 (GFXcanvas16_ctor W H True)))
           (\<lambda>c. canvas16_raw c (sint x) (sint y)) = Some color"
    by (rule canvas16_drawPixel_raw [where buf = "replicate (unat W * unat H * 2 div 2) 0"])
       (use assms in \<open>simp_all add: canvas_after_ctor rotate_xy_0_2 on len16 ctor_dims W H\<close>)
  have b16: "after (canvas16_drawPixel x y color (setRotation 2 (GFXcanvas16_ctor W H True)))
           (\<lambda>c. canvas16_raw c (sint rx) (sint ry)) = Some color"
    by (rule canvas16_drawPixel_raw [where buf = "replicate (unat W * unat H * 2 div 2) 0"])
       (use r in \<open>simp_all add: canvas_after_ctor rotate_xy_0_2 on len16 rx_def ry_def ctor_dims W H\<close>)
  have a8: "after (canvas8_drawPixel x y color (setRotation 0 (GFXcanvas8_ctor W H True)))
           (\<lambda>c. canvas8_raw c (sint x) (sint y)) = Some (ucast color)"
    by (rule canvas8_drawPixel_raw [where buf = "replicate (unat W * unat H) 0"])
       (use assms in \<open>simp_all add: canvas_after_ctor rotate_xy_0_2 on len8 ctor_dims W H\<close>)
  have b8: "after (canvas8_drawPixel x y color (setRotation 2 (GFXcanvas8_ctor W H True)))
           (\<lambda>c. canvas8_raw c (sint rx) (sint ry)) = Some (ucast color)"
    by (rule canvas8_drawPixel_raw [where buf = "replicate (unat W * unat H) 0"])
       (use r in \<open>simp_all add: canvas_after_ctor rotate_xy_0_2 on len8 rx_def ry_def ctor_dims W H\<close>)
  have a1: "after (canvas1_drawPixel x y color (setRotation 0 (GFXcanvas1_ctor W H True)))
           (\<lambda>c. canvas1_raw c (sint x) (sint y)) = Some (color \<noteq> 0)"
    by (rule canvas1_drawPixel_raw [where buf = "replicate (((unat W + 7) div 8) * unat H) 0"])
       (use assms in \<open>simp_all add: canvas_after_ctor rotate_xy_0_2 on len1 ctor_dims W H stride\<close>)
  have b1: "after (canvas1_drawPixel x y color (setRotation 2 (GFXcanvas1_ctor W H True)))
           (\<lambda>c. canvas1_raw c (sint rx) (sint ry)) = Some (color \<noteq> 0)"
    by (rule canvas1_drawPixel_raw [where buf = "replicate (((unat W + 7) div 8) * unat H) 0"])
       (use r in \<open>simp_all add: canvas_after_ctor rotate_xy_0_2 on len1 rx_def ry_def ctor_dims W H stride\<close>)
  from a16 b16 a8 b8 a1 b1 show ?thesis by (simp add: rx ry)
qed

theorem rotation_round_trip_witness:
  "after (canvas16_drawPixel 1 2 0xF800 (setRotation 0 (GFXcanvas16_ctor 3 4 True)))
           (\<lambda>c. canvas16_raw c 1 2) = Some 0xF800
   \<and> after (canvas16_drawPixel 1 2 0xF800 (setRotation 2 (GFXcanvas16_ctor 3 4 True)))
           (\<lambda>c. canvas16_raw c 1 1) = Some 0xF800
   \<and> after (canvas1_drawPixel 1 2 0xF800 (setRotation 0 (GFXcanvas1_ctor 3 4 True)))
           (\<lambda>c. canvas1_raw c 1 2) = Some True
   \<and> after (canvas1_drawPixel 1 2 0xF800 (setRotation 2 (GFXcanvas1_ctor 3 4 True)))
           (\<lambda>c. canvas1_raw c 1 1) = Some True"
  using rotation_round_trip [of 1 3 2 4 "0xF800"] by simp

section \<open>The horizontal span of the 8-bit canvas\<close>

text \<open>
  Claim C3. For every rotation, \<open>GFXcanvas8::writeFastHLine x y w\<close> should leave the raw
  buffer as \<open>w\<close> individual \<open>drawPixel\<close> calls at \<open>(x + i, y)\<close> do. The code does not: it
  rotates the first point only and fills \<open>w\<close> consecutive bytes from there. On a 2 by 2
  canvas at rotation 1 the span \<open>(0, 0, 2)\<close> fills raw cells 1 and 2 where the two pixels
  are cells 1 and 3; at rotation 2 the same span starts at the last cell and runs past the
  end of the buffer.
\<close>

theorem canvas8_writeFastHLine_rotated:
  "canvas8_writeFastHLine 0 0 2 0xAB (setRotation 1 (GFXcanvas8_ctor 2 2 True))
     = Inr ((setRotation 1 (GFXcanvas8_ctor 2 2 True))\<lparr>buffer8 := Some [0, 0xAB, 0xAB, 0]\<rparr>)
   \<and> canvas8_hline_per_pixel 0 0 2 0xAB (setRotation 1 (GFXcanvas8_ctor 2 2 True))
     = Inr ((setRotation 1 (GFXcanvas8_ctor 2 2 True))\<lparr>buffer8 := Some [0, 0xAB, 0, 0xAB]\<rparr>)
   \<and> canvas8_writeFastHLine 0 0 2 0xAB (setRotation 2 (GFXcanvas8_ctor 2 2 True)) = Inl OutOfBounds
   \<and> canvas8_hline_per_pixel 0 0 2 0xAB (setRotation 2 (GFXcanvas8_ctor 2 2 True))
     = Inr ((setRotation 2 (GFXcanvas8_ctor 2 2 True))\<lparr>buffer8 := Some [0, 0, 0xAB, 0xAB]\<rparr>)"
  by code_simp

section \<open>Lines\<close>

lemma sint_eq_iff: "sint (a :: 16 word) = sint b \<longleftrightarrow> a = b"
  by (auto intro: signed_word_eqI)

lemma GFX_writeLine_sym: "GFX_writeLine x0 y0 x1 y1 color = GFX_writeLine x1 y1 x0 y0 color"
proof -
  have ax: "\<bar>sint x1 - sint x0\<bar> = \<bar>sint x0 - sint x1\<bar>" and ay: "\<bar>sint y1 - sint y0\<bar> = \<bar>sint y0 - sint y1\<bar>"
    by (simp_all add: abs_minus_commute)
  consider (lt) "sint x0 < sint x1" | (gt) "sint x1 < sint x0" | (eq) "x0 = x1"
    using sint_eq_iff [of x0 x1] by linarith
  then show ?thesis
  proof cases
    case lt
    consider (ylt) "sint y0 < sint y1" | (ygt) "sint y1 < sint y0" | (yeq) "y0 = y1"
      using sint_eq_iff [of y0 y1] by linarith
    then show ?thesis
      by cases (use lt in \<open>auto simp add: GFX_writeLine_def Let_def ax ay\<close>)
  next
    case gt
    consider (ylt) "sint y0 < sint y1" | (ygt) "sint y1 < sint y0" | (yeq) "y0 = y1"
      using sint_eq_iff [of y0 y1] by linarith
    then show ?thesis
      by cases (use gt in \<open>auto simp add: GFX_writeLine_def Let_def ax ay\<close>)
  next
    case eq
    consider (ylt) "sint y0 < sint y1" | (ygt) "sint y1 < sint y0" | (yeq) "y0 = y1"
      using sint_eq_iff [of y0 y1] by linarith
    then show ?thesis
      by cases (use eq in \<open>auto simp add: GFX_writeLine_def Let_def ax ay\<close>)
  qed
qed

lemma GFX_drawLine_sym: "GFX_drawLine x0 y0 x1 y1 color = GFX_drawLine x1 y1 x0 y0 color"
proof -
  consider (v) "x0 = x1" | (h) "x0 \<noteq> x1" "y0 = y1" | (g) "x0 \<noteq> x1" "y0 \<noteq> y1" by blast
  then show ?thesis
  proof cases
    case v
    consider (ylt) "sint y0 < sint y1" | (ygt) "sint y1 < sint y0" | (yeq) "y0 = y1"
      using sint_eq_iff [of y0 y1] by linarith
    then show ?thesis by cases (use v in \<open>auto simp add: GFX_drawLine_def\<close>)
  next
    case h
    consider (lt) "sint x0 < sint x1" | (gt) "sint x1 < sint x0"
      using sint_eq_iff [of x0 x1] h by linarith
    then show ?thesis by cases (use h in \<open>auto simp add: GFX_drawLine_def\<close>)
  next
    case g
    then show ?thesis using GFX_writeLine_sym [of x0 y0 x1 y1 color] by (auto simp add: GFX_drawLine_def)
  qed
qed

lemma sint16_succ: "sint (x :: 16 word) < 32767 \<Longrightarrow> sint (x + 1) = sint x + 1"
proof -
  assume a: "sint x < 32767"
  have "x + 1 = word_of_int (sint x + 1)" by simp
  then have "sint (x + 1) = sint (word_of_int (sint x + 1) :: 16 word)" by simp
  also have "\<dots> = sint x + 1"
    using a sint16_bounds(1) [of x] by (intro sint16_of_int) simp_all
  finally show ?thesis .
qed

lemma span_end: "int16_of (sint a + sint (int16_of (sint b - sint a + 1)) - 1) = (b :: 16 word)"
  by simp

lemma GFX_writeLine_loop_returns:
  "sint x1 < 32767 \<Longrightarrow>
     \<exists>t. GFX_writeLine_loop steep color dx dy ystep x1 x0 y0 err acc = Some t"
proof (induction "nat (sint x1 + 1 - sint x0)" arbitrary: x0 y0 err acc)
  case 0
  then have "\<not> sint x0 \<le> sint x1" by simp
  then show ?case by (subst GFX_writeLine_loop.simps) simp
next
  case (Suc n)
  then have le: "sint x0 \<le> sint x1" by simp
  with Suc.prems have s: "sint (x0 + 1) = sint x0 + 1" by (intro sint16_succ) simp
  have n: "n = nat (sint x1 + 1 - sint (x0 + 1))" using Suc.hyps(2) s by simp
  show ?case
    by (subst GFX_writeLine_loop.simps)
       (use le Suc.hyps(1) [OF n Suc.prems] in \<open>simp add: Let_def split: prod.split\<close>)
qed

lemma GFX_writeLine_returns:
  assumes "sint x0 < 32767" "sint y0 < 32767" "sint x1 < 32767" "sint y1 < 32767"
  shows "\<exists>t. GFX_writeLine x0 y0 x1 y1 color = Some t"
  using assms by (auto simp add: GFX_writeLine_def Let_def intro: GFX_writeLine_loop_returns)

lemma GFX_drawLine_returns:
  assumes "sint x0 < 32767" "sint y0 < 32767" "sint x1 < 32767" "sint y1 < 32767"
  shows "\<exists>t. GFX_drawLine x0 y0 x1 y1 color = Some t"
proof -
  have v: "\<exists>t. GFX_drawFastVLine x a (int16_of (sint b - sint a + 1)) color = Some t"
    if "sint x < 32767" "sint a < 32767" "sint b < 32767" for x a b :: "16 word"
    using GFX_writeLine_returns [of x a x b color] that
    by (auto simp add: GFX_drawFastVLine_def in_transaction_def span_end simp del: of_int_add of_int_diff)
  have h: "\<exists>t. GFX_drawFastHLine a y (int16_of (sint b - sint a + 1)) color = Some t"
    if "sint y < 32767" "sint a < 32767" "sint b < 32767" for y a b :: "16 word"
    using GFX_writeLine_returns [of a y b y color] that
    by (auto simp add: GFX_drawFastHLine_def in_transaction_def span_end simp del: of_int_add of_int_diff)
  show ?thesis
    using assms v [of x0 y0 y1] v [of x0 y1 y0] h [of y0 x0 x1] h [of y0 x1 x0]
      GFX_writeLine_returns [OF assms, of color]
    by (auto simp add: GFX_drawLine_def in_transaction_def simp del: of_int_add of_int_diff)
qed

text \<open>When the larger major coordinate is 32767 the loop counter wraps around: no return.\<close>

lemma GFX_writeLine_loop_Some_bound:
  "GFX_writeLine_loop steep color dx dy ystep x1 x0 y0 err acc = Some t \<Longrightarrow> sint x1 \<noteq> 32767"
proof (induction rule: GFX_writeLine_loop.raw_induct [rotated 1, consumes 1])
  case (1 loop steep color dx dy ystep x1 x0 y0 err acc t)
  show ?case
  proof (cases "sint x0 \<le> sint x1")
    case True
    with 1(2) obtain y0' err' acc' where "loop steep color dx dy ystep x1 (x0 + 1) y0' err' acc' = Some t"
      by (auto simp add: Let_def split: prod.splits if_splits)
    then show ?thesis by (rule 1(1))
  next
    case False
    then show ?thesis using sint16_bounds(2) [of x0] by simp
  qed
qed

lemma GFX_writeLine_loop_diverges:
  "sint x1 = 32767 \<Longrightarrow> GFX_writeLine_loop steep color dx dy ystep x1 x0 y0 err acc = None"
  using GFX_writeLine_loop_Some_bound [of steep color dx dy ystep x1 x0 y0 err acc]
  by (cases "GFX_writeLine_loop steep color dx dy ystep x1 x0 y0 err acc") auto

text \<open>
  Claim C6. Line endpoint symmetry: for every pair of endpoints and every colour,
  \<open>drawLine x0 y0 x1 y1\<close> and \<open>drawLine x1 y1 x0 y0\<close> write the same set of pixel coordinates.
  Both calls normalise the endpoints to the same order before the Bresenham loop starts, so
  they are one and the same run: the same calls in the same order (or, when the larger
  coordinate of the major axis is 32767 and the \<open>int16_t\<close> loop counter wraps around, the
  same run that never returns, which \<open>None\<close> stands for).
\<close>

theorem drawLine_endpoint_symmetry:
  "GFX_drawLine x0 y0 x1 y1 color = GFX_drawLine x1 y1 x0 y0 color
   \<and> pixels_written (GFX_drawLine x0 y0 x1 y1 color) = pixels_written (GFX_drawLine x1 y1 x0 y0 color)"
  using GFX_drawLine_sym [of x0 y0 x1 y1 color] by simp

lemma drawLine_example:
  "GFX_drawLine 0 0 3 2 7 = Some [StartWrite, DrawPixel 0 0 7, DrawPixel 1 1 7, DrawPixel 2 1 7, DrawPixel 3 2 7, EndWrite]"
  "GFX_drawLine 3 2 0 0 7 = Some [StartWrite, DrawPixel 0 0 7, DrawPixel 1 1 7, DrawPixel 2 1 7, DrawPixel 3 2 7, EndWrite]"
  "GFX_drawLine 1 5 1 3 7 = Some [StartWrite, DrawPixel 1 3 7, DrawPixel 1 4 7, DrawPixel 1 5 7, EndWrite]"
  by code_simp+

section \<open>Solid spans on the bus\<close>

lemma SPITFT_fill_buffer_eq:
  "i \<le> count \<Longrightarrow> count \<le> length buf \<Longrightarrow>
     SPITFT_fill_buffer i count c buf = Inr (take i buf @ replicate (count - i) c @ drop count buf)"
proof (induction i count c buf rule: SPITFT_fill_buffer.induct)
  case (1 i count c buf)
  show ?case
  proof (cases "i < count")
    case True
    with "1.prems" have p: "poke buf (int i) c = Inr (buf[i := c])"
      by (simp add: poke_def)
    from True have "SPITFT_fill_buffer i count c buf = SPITFT_fill_buffer (i + 1) count c (buf[i := c])"
      by (subst SPITFT_fill_buffer.simps) (simp add: p)
    also have "\<dots> = Inr (take (i + 1) (buf[i := c]) @ replicate (count - (i + 1)) c @ drop count (buf[i := c]))"
      using True "1.prems" by (intro "1.IH" [OF True p]) simp_all
    also have "take (i + 1) (buf[i := c]) = take i buf @ [c]"
      using True "1.prems" by (simp add: take_Suc_conv_app_nth)
    also have "drop count (buf[i := c]) = drop count buf"
      using True by simp
    also have "(take i buf @ [c]) @ replicate (count - (i + 1)) c @ drop count buf
        = take i buf @ replicate (count - i) c @ drop count buf"
      using True by (simp add: replicate_app_Cons_same Suc_diff_Suc flip: replicate_Suc)
    finally show ?thesis .
  next
    case False
    with "1.prems" show ?thesis by (subst SPITFT_fill_buffer.simps) simp
  qed
qed

lemma SPITFT_fill_buffer_overrun:
  "i \<le> length buf \<Longrightarrow> length buf < count \<Longrightarrow> SPITFT_fill_buffer i count c buf = Inl OutOfBounds"
proof (induction i count c buf rule: SPITFT_fill_buffer.induct)
  case (1 i count c buf)
  from "1.prems" have lt: "i < count" by simp
  show ?case
  proof (cases "i < length buf")
    case True
    then have p: "poke buf (int i) c = Inr (buf[i := c])" by (simp add: poke_def)
    have "SPITFT_fill_buffer (i + 1) count c (buf[i := c]) = Inl OutOfBounds"
      using True "1.prems" by (intro "1.IH" [OF lt p]) simp_all
    then show ?thesis using lt by (subst SPITFT_fill_buffer.simps) (simp add: p)
  next
    case False
    then have p: "poke buf (int i) c = Inl OutOfBounds" by (simp add: poke_def)
    show ?thesis using lt by (subst SPITFT_fill_buffer.simps) (simp add: p)
  qed
qed

lemma SPITFT_transfer_blocks_eq:
  "i \<le> n \<Longrightarrow> unat SPI_BLOCKSIZE \<le> length buf \<Longrightarrow>
     SPITFT_transfer_blocks i n buf acc
       = Inr (n, acc @ replicate (n - i) (TransferBuf (take (unat SPI_BLOCKSIZE) buf)))"
proof (induction i n buf acc rule: SPITFT_transfer_blocks.induct)
  case (1 i n buf acc)
  from "1.prems" have t: "spi_transfer buf (2 * unat SPI_BLOCKSIZE) = Inr [TransferBuf (take (unat SPI_BLOCKSIZE) buf)]"
    by (simp add: spi_transfer_def)
  show ?case
  proof (cases "i < n")
    case True
    then show ?thesis
      using "1.IH" [OF True t] "1.prems"
      by (subst SPITFT_transfer_blocks.simps)
         (simp add: t replicate_app_Cons_same Suc_diff_Suc flip: replicate_Suc)
  next
    case False
    with "1.prems" show ?thesis by (subst SPITFT_transfer_blocks.simps) simp
  qed
qed


lemma small_len_cases:
  "unat (len :: u32) \<le> 4 \<Longrightarrow> len = 0 \<or> len = 1 \<or> len = 2 \<or> len = 3 \<or> len = 4"
proof -
  assume "unat len \<le> 4"
  then have "unat len = 0 \<or> unat len = 1 \<or> unat len = 2 \<or> unat len = 3 \<or> unat len = 4" by arith
  then show ?thesis by (auto simp add: word_unat_eq_iff)
qed

lemma replicate_small:
  "replicate 2 x = [x, x]" "replicate 3 x = [x, x, x]" "replicate 4 x = [x, x, x, x]"
  by (simp_all add: eval_nat_numeral)

lemma SPITFT_writeColor_small:
  assumes "unat len \<le> 4"
  shows "SPITFT_writeColor color len s = Inr (replicate (unat len) (Transfer16 color), s)"
  using small_len_cases [OF assms]
  by (elim disjE) (simp_all add: SPITFT_writeColor_def SPI_WRITE16_def replicate_small)

lemma SPITFT_writeColor_large:
  assumes big: "4 < unat len" and buf: "length (spi_buffer s) = 32"
  shows "SPITFT_writeColor color len s
     = Inr (replicate (unat len div 32) (TransferBuf (replicate 32 (swapped color)))
              @ [TransferBuf (replicate (unat len mod 32) (swapped color))],
            s\<lparr>spi_buffer := replicate (min 32 (unat len)) (swapped color)
                               @ drop (min 32 (unat len)) (spi_buffer s)\<rparr>)"
proof -
  let ?c = "swapped color"
  let ?cnt = "min 32 (unat len)"
  define buf' where "buf' = replicate ?cnt ?c @ drop ?cnt (spi_buffer s)"
  have len': "length buf' = 32" using buf by (simp add: buf'_def)
  have ne: "len \<noteq> 0" "len \<noteq> 1" "len \<noteq> 2" "len \<noteq> 3" "len \<noteq> 4"
    using big by auto
  have cnt: "unat (min (32 :: u32) len) = ?cnt"
    by (simp add: min_def word_le_nat_alt)
  have fill: "SPITFT_fill_buffer 0 ?cnt ?c (spi_buffer s) = Inr buf'"
    unfolding buf'_def using buf by (subst SPITFT_fill_buffer_eq) simp_all
  have n: "unat (len div 32) = unat len div 32" by (simp add: unat_div)
  have blocks: "SPITFT_transfer_blocks 0 (unat len div 32) buf' []
      = Inr (unat len div 32, replicate (unat len div 32) (TransferBuf (take 32 buf')))"
    using len' by (subst SPITFT_transfer_blocks_eq) (simp_all add: SPI_BLOCKSIZE_def)
  have "(word_of_nat (unat (len div 32)) :: u32) = len div 32" by simp
  then have "(word_of_nat (unat len div 32) :: u32) = len div 32" by (simp only: n)
  then have "len - word_of_nat (unat len div 32) * 32 = len mod 32"
    by (simp add: minus_div_mult_eq_mod)
  moreover have m: "unat (len mod 32) = unat len mod 32" by (simp add: unat_mod)
  moreover have "unat ((len mod 32) * 2) = unat (len mod 32) * 2"
    using m by (simp add: unat_word_ariths)
  ultimately have bytes: "unat ((len - word_of_nat (unat len div 32) * 32) * 2) = (unat len mod 32) * 2"
    by simp
  have last: "take (unat len mod 32) buf' = replicate (unat len mod 32) ?c"
  proof (cases "unat len < 32")
    case True
    then show ?thesis by (simp add: buf'_def min_def)
  next
    case False
    then show ?thesis by (simp add: buf'_def min_def)
  qed
  have rest: "spi_transfer buf' (unat ((len - word_of_nat (unat len div 32) * 32) * 2))
      = Inr [TransferBuf (replicate (unat len mod 32) ?c)]"
    unfolding bytes using len' by (simp add: spi_transfer_def last)
  have full: "replicate (unat len div 32) (TransferBuf (take 32 buf'))
      = replicate (unat len div 32) (TransferBuf (replicate 32 ?c))"
  proof (cases "unat len < 32")
    case True
    then show ?thesis by simp
  next
    case False
    then show ?thesis by (simp add: buf'_def min_def)
  qed
  have "SPITFT_writeColor color len s
      = Inr (replicate (unat len div 32) (TransferBuf (replicate 32 ?c))
           @ [TransferBuf (replicate (unat len mod 32) ?c)], s\<lparr>spi_buffer := buf'\<rparr>)"
    unfolding SPITFT_writeColor_def Let_def SPI_BLOCKSIZE_def
    by (simp only: ne if_False cnt fill n blocks prod.case sum.case rest full)
  then show ?thesis by (simp only: buf'_def)
qed


lemma words_sent_append: "words_sent (xs @ ys) = words_sent xs + words_sent ys"
  by (induction xs rule: words_sent.induct) simp_all

lemma max_block_append: "max_block (xs @ ys) = max (max_block xs) (max_block ys)"
  by (induction xs rule: max_block.induct) simp_all

lemma words_sent_singles: "words_sent (replicate n (Transfer16 w)) = n"
  by (induction n) simp_all

lemma words_sent_blocks: "words_sent (replicate n (TransferBuf ws)) = n * length ws"
  by (induction n) simp_all

lemma max_block_singles: "max_block (replicate n (Transfer16 w)) = 0"
  by (induction n) simp_all

lemma max_block_blocks: "max_block (replicate n (TransferBuf ws)) \<le> length ws"
  by (induction n) simp_all

text \<open>
  Claim C8. Solid-span write, exactness and chunking: for every colour and every count
  \<open>len\<close>, \<open>writeColor colour len\<close> returns, without a store or a transfer outside the 32 cells of
  \<open>_spi_buffer\<close>, having issued exactly \<open>len\<close> 16-bit colour values (none when \<open>len = 0\<close>), and no
  block transfer exceeds the block size of 32 pixels: up to four values go out one by one, a
  longer run as \<open>len div 32\<close> blocks of 32 and a last block of \<open>len mod 32\<close> values, all equal
  to the byte-swapped colour. The only memory written is the first \<open>min 32 len\<close> cells of the
  buffer, which keeps its 32 cells: the working memory does not depend on \<open>len\<close>.
\<close>

theorem writeColor_sends_len_words:
  assumes "length (spi_buffer s) = unat SPI_BLOCKSIZE"
  shows "let sent = (if unat len \<le> 4 then replicate (unat len) (Transfer16 color)
                     else replicate (unat len div 32) (TransferBuf (replicate 32 (swapped color)))
                            @ [TransferBuf (replicate (unat len mod 32) (swapped color))]);
             buf = (if unat len \<le> 4 then spi_buffer s
                    else replicate (min 32 (unat len)) (swapped color) @ drop (min 32 (unat len)) (spi_buffer s))
         in SPITFT_writeColor color len s = Inr (sent, s\<lparr>spi_buffer := buf\<rparr>)
          \<and> words_sent sent = unat len
          \<and> max_block sent \<le> unat SPI_BLOCKSIZE
          \<and> length buf = unat SPI_BLOCKSIZE"
proof (cases "unat len \<le> 4")
  case True
  then show ?thesis
    using assms by (simp add: SPITFT_writeColor_small words_sent_singles max_block_singles)
next
  case False
  then have big: "4 < unat len" by simp
  have buf: "length (spi_buffer s) = 32" using assms by (simp add: SPI_BLOCKSIZE_def)
  have mb: "max_block (replicate (unat len div 32) (TransferBuf (replicate 32 (swapped color)))) \<le> 32"
    using max_block_blocks [of "unat len div 32" "replicate 32 (swapped color)"] by simp
  show ?thesis
    using False buf mb
    by (simp add: SPITFT_writeColor_large [OF big buf] words_sent_append words_sent_blocks
        max_block_append SPI_BLOCKSIZE_def Let_def)
qed

theorem writeColor_sends_len_words_witness:
  "length (spi_buffer (Adafruit_SPITFT_ctor 100 100 10 9 8 (replicate 32 0))) = unat SPI_BLOCKSIZE
   \<and> SPITFT_writeColor 0xF800 70 (Adafruit_SPITFT_ctor 100 100 10 9 8 (replicate 32 0))
       = Inr ([TransferBuf (replicate 32 0x00F8), TransferBuf (replicate 32 0x00F8), TransferBuf (replicate 6 0x00F8)],
              (Adafruit_SPITFT_ctor 100 100 10 9 8 (replicate 32 0))\<lparr>spi_buffer := replicate 32 0x00F8\<rparr>)
   \<and> words_sent [TransferBuf (replicate 32 0x00F8), TransferBuf (replicate 32 0x00F8), TransferBuf (replicate 6 0x00F8)] = 70"
proof -
  let ?s = "Adafruit_SPITFT_ctor 100 100 10 9 8 (replicate 32 0)"
  have h: "length (spi_buffer ?s) = unat SPI_BLOCKSIZE" by code_simp
  have sw: "swapped 0xF800 = 0x00F8" by code_simp
  have r: "replicate 2 x = [x, x]" for x :: spi_event by (simp add: numeral_2_eq_2)
  from writeColor_sends_len_words [OF h, of 70 "0xF800"] h show ?thesis
    by (simp add: sw r SPI_BLOCKSIZE_def Let_def)
qed

text \<open>
  What keeps the call inside the buffer is the clamp \<open>std::min(SPI_BLOCKSIZE, len)\<close> of the fill
  count and the sizes of the transfers: a fill of more cells than the buffer has stores past
  its end, and a transfer of more bytes than it holds reads past it.
\<close>

lemma SPITFT_fill_buffer_needs_clamp:
  "length buf < count \<Longrightarrow> SPITFT_fill_buffer 0 count c buf = Inl OutOfBounds"
  by (rule SPITFT_fill_buffer_overrun) simp_all

lemma spi_transfer_past_buffer:
  "2 * length buf < nbytes \<Longrightarrow> spi_transfer buf nbytes = Inl OutOfBounds"
  by (simp add: spi_transfer_def)

text \<open>
  The hypothesis is needed as well: were the array shorter than \<open>SPI_BLOCKSIZE\<close> cells, a run
  of 70 values would store past its end.
\<close>

lemma SPITFT_writeColor_short_buffer:
  "SPITFT_writeColor 0xF800 70 (Adafruit_SPITFT_ctor 100 100 10 9 8 (replicate 16 0)) = Inl OutOfBounds"
  by code_simp
section \<open>Filled rectangles on the hardware sink\<close>

lemma SPITFT_clip_axes:
  "SPITFT_clip wd ht x y w h =
     (case SPITFT_clip_axis wd x w of
        None \<Rightarrow> None
      | Some (x', w') \<Rightarrow>
          (case SPITFT_clip_axis ht y h of
             None \<Rightarrow> None
           | Some (y', h') \<Rightarrow> Some (x', y', w', h')))"
  by (simp add: SPITFT_clip_def SPITFT_clip_axis_def Let_def split: prod.splits)

lemma sint_zero_iff: "sint (w :: 16 word) = 0 \<longleftrightarrow> w = 0"
  using sint_eq_iff [of w 0] by simp

lemma SPITFT_clip_axis_exact:
  fixes d x w :: "16 word"
  assumes nm: "sint w \<noteq> - 32768" and nw: "- 32768 \<le> sint x + sint w + 1" and dpos: "0 < sint d"
  shows "case SPITFT_clip_axis d x w of
           None \<Rightarrow> span (sint x) (sint w) \<inter> {0 ..< sint d} = {}
         | Some (x', w') \<Rightarrow>
             0 \<le> sint x' \<and> 0 < sint w'
             \<and> {sint x' ..< sint x' + sint w'} = span (sint x) (sint w) \<inter> {0 ..< sint d}"
proof (cases "w = 0")
  case True
  then show ?thesis by (simp add: SPITFT_clip_axis_def span_def)
next
  case False
  then have w0: "sint w \<noteq> 0" by (simp add: sint_zero_iff)
  define xn where "xn = (if sint w < 0 then sint x + sint w + 1 else sint x)"
  define wn where "wn = \<bar>sint w\<bar>"
  define xw where "xw = (if sint w < 0 then int16_of (sint x + (sint w + 1)) else x)"
  define ww where "ww = (if sint w < 0 then int16_of (- sint w) else w)"
  have rng: "- 32768 \<le> xn" "xn \<le> 32767" "0 < wn" "wn \<le> 32767"
    using nm nw w0 sint16_bounds [of x] sint16_bounds [of w] by (auto simp add: xn_def wn_def)
  have d: "sint d \<le> 32767" using sint16_bounds(2) [of d] by simp
  have "sint (int16_of (sint x + (sint w + 1))) = sint x + (sint w + 1)" if "sint w < 0"
    using that rng sint16_bounds [of x] by (intro sint16_of_int) (simp_all add: xn_def)
  then have sx: "sint xw = xn"
    by (simp add: xw_def xn_def del: of_int_add)
  have "sint (int16_of (- sint w)) = - sint w" if "sint w < 0"
    using that rng by (intro sint16_of_int) (simp_all add: wn_def)
  then have sw: "sint ww = wn"
    by (simp add: ww_def wn_def del: of_int_minus)
  have sp: "span (sint x) (sint w) = {xn ..< xn + wn}"
    by (auto simp add: span_def xn_def wn_def)
  have ax: "SPITFT_clip_axis d x w =
     (if xn < sint d then
        if 0 \<le> xn + wn - 1 then
          Some (if xn < 0 then 0 else xw,
                if sint d \<le> xn + wn - 1 then int16_of (sint d - (if xn < 0 then 0 else xn))
                else if xn < 0 then int16_of (xn + wn - 1 + 1) else ww)
        else None
      else None)"
  proof (cases "sint w < 0")
    case True
    have a: "sint (int16_of (sint x + (sint w + 1))) = xn" "sint (int16_of (- sint w)) = wn"
      using sx sw True by (simp_all add: xw_def ww_def del: of_int_add of_int_minus)
    show ?thesis
      using False True
      by (simp add: SPITFT_clip_axis_def Let_def a xw_def ww_def
          del: of_int_add of_int_minus of_int_diff)
  next
    case nonneg: False
    have a: "sint x = xn" "sint w = wn"
      using sx sw nonneg by (simp_all add: xw_def ww_def)
    show ?thesis
      using False nonneg
      by (simp add: SPITFT_clip_axis_def Let_def a xw_def ww_def
          del: of_int_add of_int_minus of_int_diff)
  qed
  show ?thesis
  proof (cases "xn < sint d \<and> 0 \<le> xn + wn - 1")
    case False
    then show ?thesis unfolding ax sp by auto
  next
    case True
    define x' where "x' = (if xn < 0 then 0 else xn)"
    define w' where "w' = (if sint d \<le> xn + wn - 1 then sint d - x' else if xn < 0 then xn + wn else wn)"
    have r: "0 \<le> x'" "0 < w'" "w' \<le> 32767" "x' \<le> 32767"
      using True rng d dpos by (auto simp add: x'_def w'_def)
    have e: "{x' ..< x' + w'} = {xn ..< xn + wn} \<inter> {0 ..< sint d}"
      using True rng d dpos by (auto simp add: x'_def w'_def)
    define X' where "X' = (if xn < 0 then 0 else xw)"
    define W' where "W' = (if sint d \<le> xn + wn - 1 then int16_of (sint d - (if xn < 0 then 0 else xn))
                else if xn < 0 then int16_of (xn + wn - 1 + 1) else ww)"
    have s1: "sint X' = x'"
      by (simp add: X'_def x'_def sx)
    have "sint (int16_of w') = w'"
      using r by (intro sint16_of_int) simp_all
    then have s2: "sint W' = w'"
      by (auto simp add: W'_def w'_def x'_def sw simp del: of_int_add of_int_diff)
    have ax': "SPITFT_clip_axis d x w = Some (X', W')"
      unfolding ax X'_def W'_def using True by simp
    show ?thesis
      unfolding ax' sp using r e by (simp add: s1 s2)
  qed
qed


lemma SPITFT_clip_axis_min_extent:
  assumes "sint w = - 32768"
  shows "SPITFT_clip_axis d x w = None"
proof -
  have w: "w \<noteq> 0" using assms by (auto simp add: sint_zero_iff [symmetric])
  have n: "sint (int16_of (- sint w)) = - 32768" by (simp add: assms)
  have b: "sint (int16_of (sint x + (sint w + 1))) \<le> 32767"
    using sint16_bounds(2) [of "int16_of (sint x + (sint w + 1))"] by simp
  show ?thesis
    using w assms b
    by (simp add: SPITFT_clip_axis_def Let_def n del: of_int_add of_int_minus of_int_diff)
qed

lemma SPITFT_clip_overlap:
  fixes wd ht x y w h :: "16 word"
  assumes W: "0 < sint wd" and H: "0 < sint ht"
    and nwx: "- 32768 \<le> sint x + sint w + 1" and nwy: "- 32768 \<le> sint y + sint h + 1"
    and c: "SPITFT_clip wd ht x y w h = Some (x', y', w', h')"
  shows "0 \<le> sint x' \<and> 0 < sint w' \<and> 0 \<le> sint y' \<and> 0 < sint h'
       \<and> {sint x' ..< sint x' + sint w'} \<times> {sint y' ..< sint y' + sint h'}
           = rect_pixels (sint x) (sint y) (sint w) (sint h) \<inter> screen_pixels (sint wd) (sint ht)"
proof -
  from c have cx: "SPITFT_clip_axis wd x w = Some (x', w')" and cy: "SPITFT_clip_axis ht y h = Some (y', h')"
    by (auto simp add: SPITFT_clip_axes split: option.splits)
  from cx have "sint w \<noteq> - 32768" using SPITFT_clip_axis_min_extent [of w wd x] by auto
  from SPITFT_clip_axis_exact [OF this nwx W] cx
  have x: "0 \<le> sint x'" "0 < sint w'"
    "{sint x' ..< sint x' + sint w'} = span (sint x) (sint w) \<inter> {0 ..< sint wd}" by simp_all
  from cy have "sint h \<noteq> - 32768" using SPITFT_clip_axis_min_extent [of h ht y] by auto
  from SPITFT_clip_axis_exact [OF this nwy H] cy
  have y: "0 \<le> sint y'" "0 < sint h'"
    "{sint y' ..< sint y' + sint h'} = span (sint y) (sint h) \<inter> {0 ..< sint ht}" by simp_all
  show ?thesis
    using x(1,2) y(1,2) unfolding x(3) y(3) rect_pixels_def screen_pixels_def by auto
qed

lemma SPITFT_clip_reject:
  fixes wd ht x y w h :: "16 word"
  assumes nmx: "sint w \<noteq> - 32768" and nmy: "sint h \<noteq> - 32768"
    and W: "0 < sint wd" and H: "0 < sint ht"
    and nwx: "- 32768 \<le> sint x + sint w + 1" and nwy: "- 32768 \<le> sint y + sint h + 1"
    and c: "SPITFT_clip wd ht x y w h = None"
  shows "rect_pixels (sint x) (sint y) (sint w) (sint h) \<inter> screen_pixels (sint wd) (sint ht) = {}"
proof -
  from c consider (x) "SPITFT_clip_axis wd x w = None" | (y) "SPITFT_clip_axis ht y h = None"
    by (auto simp add: SPITFT_clip_axes split: option.splits)
  then show ?thesis
  proof cases
    case x
    with SPITFT_clip_axis_exact [OF nmx nwx W] have "span (sint x) (sint w) \<inter> {0 ..< sint wd} = {}"
      by simp
    then show ?thesis unfolding rect_pixels_def screen_pixels_def by auto
  next
    case y
    with SPITFT_clip_axis_exact [OF nmy nwy H] have "span (sint y) (sint h) \<inter> {0 ..< sint ht} = {}"
      by simp
    then show ?thesis unfolding rect_pixels_def screen_pixels_def by auto
  qed
qed


lemma pixels_addressed_append: "pixels_addressed (xs @ ys) = pixels_addressed xs \<union> pixels_addressed ys"
  by (induction xs rule: pixels_addressed.induct) auto

lemma transaction_calls_append: "transaction_calls (xs @ ys) = transaction_calls xs + transaction_calls ys"
  by (induction xs rule: transaction_calls.induct) simp_all

lemma transfers_address_nothing:
  "pixels_addressed (replicate n (Transfer16 v)) = {}"
  "pixels_addressed (replicate n (TransferBuf ws)) = {}"
  "transaction_calls (replicate n (Transfer16 v)) = 0"
  "transaction_calls (replicate n (TransferBuf ws)) = 0"
  by (induction n) simp_all

lemma SPITFT_writeColor_measures:
  assumes "length (spi_buffer s) = 32"
  shows "\<exists>evs s'. SPITFT_writeColor color len s = Inr (evs, s')
       \<and> words_sent evs = unat len \<and> pixels_addressed evs = {} \<and> transaction_calls evs = 0"
proof (cases "unat len \<le> 4")
  case True
  then show ?thesis
    by (simp add: SPITFT_writeColor_small words_sent_singles transfers_address_nothing)
next
  case False
  then have big: "4 < unat len" by simp
  show ?thesis
    by (simp add: SPITFT_writeColor_large [OF big assms] words_sent_append words_sent_blocks
        pixels_addressed_append transaction_calls_append transfers_address_nothing)
qed

lemma unat_scast_nonneg: "0 \<le> sint (w :: 16 word) \<Longrightarrow> unat (scast w :: 32 word) = nat (sint w)"
proof -
  assume nn: "0 \<le> sint w"
  have "uint (scast w :: 32 word) = uint (word_of_int (sint w) :: 32 word)"
    by (simp only: scast_eq)
  also have "\<dots> = take_bit LENGTH(32) (sint w)"
    by (rule uint_word_of_int_eq)
  also have "\<dots> = sint w"
    using nn sint16_bounds(2) [of w] by (simp add: take_bit_int_eq_self)
  finally have "uint (scast w :: 32 word) = sint w" .
  then show ?thesis by (simp only: unat_eq_nat_uint)
qed

lemma area_words:
  assumes "0 < sint (w :: 16 word)" "0 < sint (h :: 16 word)"
  shows "unat ((scast w :: u32) * (scast h :: u32)) = nat (sint w) * nat (sint h)"
proof -
  have w: "unat (scast w :: u32) = nat (sint w)" and h: "unat (scast h :: u32) = nat (sint h)"
    using assms by (simp_all add: unat_scast_nonneg)
  have "nat (sint w) \<le> 32767" "nat (sint h) \<le> 32767"
    using sint16_bounds(2) [of w] sint16_bounds(2) [of h] by simp_all
  then have "nat (sint w) * nat (sint h) \<le> 32767 * 32767" by (rule mult_le_mono)
  then have "unat (scast w :: u32) * unat (scast h :: u32) < 2 ^ LENGTH(32)"
    by (simp add: w h)
  then show ?thesis by (simp add: unat_mult_lem [THEN iffD1] w h)
qed

lemma card_window:
  "0 \<le> w \<Longrightarrow> 0 \<le> h \<Longrightarrow> card ({x ..< x + w} \<times> {y ..< y + h}) = nat w * nat (h :: int)"
  by (simp add: card_cartesian_product)


lemma SPITFT_fillRect_events:
  assumes c: "SPITFT_clip (uwidth s) (uheight s) x y w h = Some (x', y', w', h')"
    and wc: "SPITFT_writeColor color (scast w' * scast h') s = Inr (evs, s')"
  shows "sink_events (SPITFT_fillRect x y w h color s)
       = Some (SPITFT_startWrite s @ SetAddrWindow x' y' w' h' # evs @ SPITFT_endWrite s)"
    and "sink_events (SPITFT_writeFillRect x y w h color s) = Some (SetAddrWindow x' y' w' h' # evs)"
  by (simp_all add: SPITFT_fillRect_def SPITFT_writeFillRect_def SPITFT_writeFillRectPreclipped_def
      sink_events_def c wc)

lemma display_100:
  "uwidth (Adafruit_SPITFT_ctor 100 100 10 9 8 (replicate 32 0)) = 100"
  "uheight (Adafruit_SPITFT_ctor 100 100 10 9 8 (replicate 32 0)) = 100"
  "length (spi_buffer (Adafruit_SPITFT_ctor 100 100 10 9 8 (replicate 32 0))) = unat SPI_BLOCKSIZE"
  by code_simp+

text \<open>
  The clipping of the hardware sink is exact wherever it can negate the extents. For every
  display and every \<open>fillRect\<close> request \<open>(x, y, w, h, colour)\<close> whose extents are not the least
  16-bit value \<open>-32768\<close> and whose rectangle overlaps the visible area \<open>[0, W) \<times> [0, H)\<close>: the call
  returns, and the pixels written are exactly the geometric intersection of the requested
  rectangle with the visible area. The address window is that intersection, it is filled
  with exactly as many colour values as it has pixels, and \<open>fillRect\<close> does so inside one
  transaction (\<open>writeFillRect\<close> with none).
\<close>

theorem SPITFT_fillRect_writes_intersection:
  assumes nmx: "sint w \<noteq> - 32768" and nmy: "sint h \<noteq> - 32768"
    and buf: "length (spi_buffer s) = unat SPI_BLOCKSIZE"
    and ov: "rect_pixels (sint x) (sint y) (sint w) (sint h)
               \<inter> screen_pixels (sint (uwidth s)) (sint (uheight s)) \<noteq> {}"
  shows "map_option pixels_addressed (sink_events (SPITFT_fillRect x y w h color s))
       = Some (rect_pixels (sint x) (sint y) (sint w) (sint h) \<inter> screen_pixels (sint (uwidth s)) (sint (uheight s)))
     \<and> map_option words_sent (sink_events (SPITFT_fillRect x y w h color s))
       = Some (card (rect_pixels (sint x) (sint y) (sint w) (sint h) \<inter> screen_pixels (sint (uwidth s)) (sint (uheight s))))
     \<and> map_option transaction_calls (sink_events (SPITFT_fillRect x y w h color s)) = Some 2
     \<and> map_option pixels_addressed (sink_events (SPITFT_writeFillRect x y w h color s))
       = Some (rect_pixels (sint x) (sint y) (sint w) (sint h) \<inter> screen_pixels (sint (uwidth s)) (sint (uheight s)))
     \<and> map_option words_sent (sink_events (SPITFT_writeFillRect x y w h color s))
       = Some (card (rect_pixels (sint x) (sint y) (sint w) (sint h) \<inter> screen_pixels (sint (uwidth s)) (sint (uheight s))))
     \<and> map_option transaction_calls (sink_events (SPITFT_writeFillRect x y w h color s)) = Some 0"
proof -
  let ?V = "rect_pixels (sint x) (sint y) (sint w) (sint h) \<inter> screen_pixels (sint (uwidth s)) (sint (uheight s))"
  from ov obtain i j where ij: "i \<in> span (sint x) (sint w)" "0 \<le> i" "i < sint (uwidth s)"
      "j \<in> span (sint y) (sint h)" "0 \<le> j" "j < sint (uheight s)"
    by (auto simp add: rect_pixels_def screen_pixels_def)
  then have W: "0 < sint (uwidth s)" and H: "0 < sint (uheight s)" by simp_all
  have nwx: "- 32768 \<le> sint x + sint w + 1"
    using ij(1,2) sint16_bounds [of x] sint16_bounds [of w] by (auto simp add: span_def split: if_splits)
  have nwy: "- 32768 \<le> sint y + sint h + 1"
    using ij(4,5) sint16_bounds [of y] sint16_bounds [of h] by (auto simp add: span_def split: if_splits)
  have b32: "length (spi_buffer s) = 32" using buf by (simp add: SPI_BLOCKSIZE_def)
  obtain x' y' w' h' where c: "SPITFT_clip (uwidth s) (uheight s) x y w h = Some (x', y', w', h')"
    using SPITFT_clip_reject [OF nmx nmy W H nwx nwy] ov
    by (cases "SPITFT_clip (uwidth s) (uheight s) x y w h") auto
  from SPITFT_clip_overlap [OF W H nwx nwy c]
  have pos: "0 \<le> sint x'" "0 < sint w'" "0 \<le> sint y'" "0 < sint h'"
    and win: "{sint x' ..< sint x' + sint w'} \<times> {sint y' ..< sint y' + sint h'} = ?V"
    by simp_all
  have u: "uint x' = sint x'" "uint w' = sint w'" "uint y' = sint y'" "uint h' = sint h'"
    using pos by (simp_all add: uint16_of_nonneg)
  have card: "card ?V = nat (sint w') * nat (sint h')"
    unfolding win [symmetric] using pos by (intro card_window) simp_all
  have words: "unat ((scast w' :: u32) * (scast h' :: u32)) = nat (sint w') * nat (sint h')"
    using pos by (intro area_words)
  from SPITFT_writeColor_measures [OF b32, of color "scast w' * scast h'"]
  obtain evs s' where wc: "SPITFT_writeColor color (scast w' * scast h') s = Inr (evs, s')"
    and m: "words_sent evs = unat ((scast w' :: u32) * (scast h' :: u32))"
      "pixels_addressed evs = {}" "transaction_calls evs = 0"
    by blast
  show ?thesis
    unfolding SPITFT_fillRect_events [OF c wc]
    by (simp add: pixels_addressed_append words_sent_append transaction_calls_append m
        SPITFT_startWrite_def SPITFT_endWrite_def u win card words)
qed

text \<open>
  On a 100 by 100 display \<open>fillRect (-5) 10 20 5\<close> writes exactly the rectangle
  \<open>(0, 10, 15, 5)\<close>.
\<close>

theorem SPITFT_fillRect_writes_intersection_witness:
  "sink_events (SPITFT_fillRect (- 5) 10 20 5 0xF800 (Adafruit_SPITFT_ctor 100 100 10 9 8 (replicate 32 0)))
     = Some [BeginTransaction, DigitalWrite 10 False, SetAddrWindow 0 10 15 5,
        TransferBuf (replicate 32 0x00F8), TransferBuf (replicate 32 0x00F8),
        TransferBuf (replicate 11 0x00F8), DigitalWrite 10 True, EndTransaction]
   \<and> map_option pixels_addressed
        (sink_events (SPITFT_fillRect (- 5) 10 20 5 0xF800 (Adafruit_SPITFT_ctor 100 100 10 9 8 (replicate 32 0))))
     = Some ({0 ..< 15} \<times> {10 ..< 15})
   \<and> map_option words_sent
        (sink_events (SPITFT_fillRect (- 5) 10 20 5 0xF800 (Adafruit_SPITFT_ctor 100 100 10 9 8 (replicate 32 0))))
     = Some 75"
proof -
  let ?s = "Adafruit_SPITFT_ctor 100 100 10 9 8 (replicate 32 0)"
  have ev: "sink_events (SPITFT_fillRect (- 5) 10 20 5 0xF800 ?s)
     = Some [BeginTransaction, DigitalWrite 10 False, SetAddrWindow 0 10 15 5,
        TransferBuf (replicate 32 0x00F8), TransferBuf (replicate 32 0x00F8),
        TransferBuf (replicate 11 0x00F8), DigitalWrite 10 True, EndTransaction]"
    by code_simp
  have V: "rect_pixels (- 5) 10 20 5 \<inter> screen_pixels 100 100 = {0 ..< 15} \<times> {10 ..< 15}"
    by (auto simp add: rect_pixels_def span_def screen_pixels_def)
  have ne: "({0 ..< 15} \<times> {10 ..< 15} :: (int \<times> int) set) \<noteq> {}"
    by simp
  have c: "card ({0 ..< 15} \<times> {10 ..< 15} :: (int \<times> int) set) = 75"
    by (simp add: card_cartesian_product)
  from SPITFT_fillRect_writes_intersection [of 20 5 ?s "- 5" 10 "0xF800"] ne
  have "map_option pixels_addressed (sink_events (SPITFT_fillRect (- 5) 10 20 5 0xF800 ?s))
          = Some ({0 ..< 15} \<times> {10 ..< 15})
      \<and> map_option words_sent (sink_events (SPITFT_fillRect (- 5) 10 20 5 0xF800 ?s)) = Some 75"
    by (simp add: display_100 V c)
  with ev show ?thesis by simp
qed

text \<open>
  Claim C1. For every display of width \<open>W\<close> and height \<open>H\<close> and every \<open>fillRect\<close> request whose
  rectangle partially overlaps the visible area, the pixels written should be exactly the
  intersection of the rectangle with \<open>[0, W) \<times> [0, H)\<close>. The code misses one extent: at
  \<open>w = -32768\<close> the statement \<open>w = -w\<close> (commented "Use positive width") leaves \<open>w\<close> negative,
  since 32768 is not an \<open>int16_t\<close>, the right edge \<open>x2\<close> comes out negative and the request is
  rejected. On a 100 by 100 display \<open>fillRect 50 10 (-32768) 5\<close> sends nothing, although the
  rectangle runs left from column 50 and covers columns 0 to 50 of rows 10 to 14: the pixel
  \<open>(0, 10)\<close> is in the intersection and is not written.
\<close>

theorem SPITFT_fillRect_min_extent:
  "SPITFT_fillRect 50 10 (- 32768) 5 0xF800 (Adafruit_SPITFT_ctor 100 100 10 9 8 (replicate 32 0))
     = Inr ([], Adafruit_SPITFT_ctor 100 100 10 9 8 (replicate 32 0))
   \<and> (0, 10) \<in> rect_pixels 50 10 (- 32768) 5 \<inter> screen_pixels 100 100
   \<and> rect_pixels 50 10 (- 32768) 5 \<inter> screen_pixels 100 100 = {0 .. 50} \<times> {10 ..< 15}"
proof -
  have "SPITFT_fillRect 50 10 (- 32768) 5 0xF800 (Adafruit_SPITFT_ctor 100 100 10 9 8 (replicate 32 0))
     = Inr ([], Adafruit_SPITFT_ctor 100 100 10 9 8 (replicate 32 0))"
    by code_simp
  moreover have "(0, 10) \<in> rect_pixels 50 10 (- 32768) 5 \<inter> screen_pixels 100 100"
    by (simp add: rect_pixels_def span_def screen_pixels_def)
  moreover have "rect_pixels 50 10 (- 32768) 5 \<inter> screen_pixels 100 100 = {0 .. 50} \<times> {10 ..< 15}"
    by (auto simp add: rect_pixels_def span_def screen_pixels_def)
  ultimately show ?thesis by simp
qed
section \<open>Rectangles off the screen\<close>

text \<open>
  Claim C2, as the code has it. On the hardware sink, for a display with positive
  dimensions: every \<open>fillRect\<close> (and \<open>writeFillRect\<close>) call whose rectangle lies fully outside
  \<open>[0, width) \<times> [0, height)\<close>, the far corner \<open>(x + w + 1, y + h + 1)\<close> of a negative extent
  being representable in 16 bits, emits nothing at all: no pixel write, no address
  window, no \<open>startWrite\<close> or \<open>endWrite\<close>, and the state is unchanged. The generic base-class
  \<open>fillRect\<close> is not part of the claim: it does not clip or reject.
\<close>

theorem SPITFT_fillRect_rejects_outside:
  assumes W: "0 < sint (uwidth s)" and H: "0 < sint (uheight s)"
    and nwx: "- 32768 \<le> sint x + sint w + 1" and nwy: "- 32768 \<le> sint y + sint h + 1"
    and out: "rect_pixels (sint x) (sint y) (sint w) (sint h)
               \<inter> screen_pixels (sint (uwidth s)) (sint (uheight s)) = {}"
  shows "SPITFT_fillRect x y w h color s = Inr ([], s) \<and> SPITFT_writeFillRect x y w h color s = Inr ([], s)"
proof -
  have "SPITFT_clip (uwidth s) (uheight s) x y w h = None"
  proof (cases "SPITFT_clip (uwidth s) (uheight s) x y w h")
    case None
    then show ?thesis .
  next
    case (Some r)
    then obtain x' y' w' h' where c: "SPITFT_clip (uwidth s) (uheight s) x y w h = Some (x', y', w', h')"
      by (cases r) auto
    from SPITFT_clip_overlap [OF W H nwx nwy c] out
    have False by auto
    then show ?thesis ..
  qed
  then show ?thesis by (simp add: SPITFT_fillRect_def SPITFT_writeFillRect_def)
qed

theorem SPITFT_fillRect_rejects_outside_witness:
  "SPITFT_fillRect (- 3) 10 (- 4) 5 0xF800 (Adafruit_SPITFT_ctor 100 100 10 9 8 (replicate 32 0))
     = Inr ([], Adafruit_SPITFT_ctor 100 100 10 9 8 (replicate 32 0))
   \<and> SPITFT_writeFillRect (- 3) 10 (- 4) 5 0xF800 (Adafruit_SPITFT_ctor 100 100 10 9 8 (replicate 32 0))
     = Inr ([], Adafruit_SPITFT_ctor 100 100 10 9 8 (replicate 32 0))
   \<and> rect_pixels (- 3) 10 (- 4) 5 \<inter> screen_pixels 100 100 = {}"
proof -
  have V: "rect_pixels (- 3) 10 (- 4) 5 \<inter> screen_pixels 100 100 = {}"
    by (auto simp add: rect_pixels_def span_def screen_pixels_def)
  from SPITFT_fillRect_rejects_outside [of "Adafruit_SPITFT_ctor 100 100 10 9 8 (replicate 32 0)" "- 3" "- 4" 10 5 "0xF800"]
  show ?thesis by (simp add: display_100 V)
qed

text \<open>
  The claim as stated, for every \<open>fillRect\<close> entry point, fails on the generic base class:
  \<open>Adafruit_GFX::fillRect\<close> calls \<open>startWrite\<close> first and leaves clipping to \<open>drawPixel\<close>. For the
  one-pixel rectangle at \<open>(200, 200)\<close>, outside a 100 by 100 display, it opens a transaction
  (and the line writer a nested one) and passes the pixel on.
\<close>

theorem GFX_fillRect_outside_counterexample:
  "rect_pixels 200 200 1 1 \<inter> screen_pixels 100 100 = {}
   \<and> GFX_fillRect 200 200 1 1 0xFFFF
       = Some [StartWrite, StartWrite, DrawPixel 200 200 0xFFFF, EndWrite, EndWrite]"
proof -
  have "rect_pixels 200 200 1 1 \<inter> screen_pixels 100 100 = {}"
    by (auto simp add: rect_pixels_def span_def screen_pixels_def)
  moreover have "GFX_fillRect 200 200 1 1 0xFFFF
       = Some [StartWrite, StartWrite, DrawPixel 200 200 0xFFFF, EndWrite, EndWrite]"
    by code_simp
  ultimately show ?thesis by simp
qed

text \<open>
  Outside this property: when the far corner of a negative extent is below \<open>-32768\<close> the
  16-bit origin wraps around, and the sink draws for a rectangle that is off the screen.
\<close>

lemma SPITFT_fillRect_wrapped_origin:
  "sink_events (SPITFT_fillRect (- 32768) 10 (- 32767) 1 0xF800 (Adafruit_SPITFT_ctor 100 100 10 9 8 (replicate 32 0)))
     = Some [BeginTransaction, DigitalWrite 10 False, SetAddrWindow 2 10 98 1,
        TransferBuf (replicate 32 0x00F8), TransferBuf (replicate 32 0x00F8),
        TransferBuf (replicate 32 0x00F8), TransferBuf (replicate 2 0x00F8),
        DigitalWrite 10 True, EndTransaction]"
  by code_simp

section \<open>The flat triangle\<close>

lemma GFX_hline_loop:
  "sint x1 < 32767 \<Longrightarrow> 0 \<le> sint err \<Longrightarrow>
     GFX_writeLine_loop False color dx 0 ystep x1 x0 y err acc
       = Some (acc @ map (\<lambda>i. DrawPixel (int16_of i) y color) [sint x0 .. sint x1])"
proof (induction "nat (sint x1 + 1 - sint x0)" arbitrary: x0 acc)
  case 0
  then have "\<not> sint x0 \<le> sint x1" by simp
  then show ?case by (subst GFX_writeLine_loop.simps) simp
next
  case (Suc n)
  then have le: "sint x0 \<le> sint x1" by simp
  with Suc.prems have s: "sint (x0 + 1) = sint x0 + 1" by (intro sint16_succ) simp
  have n: "n = nat (sint x1 + 1 - sint (x0 + 1))" using Suc.hyps(2) s by simp
  have u: "[sint x0 .. sint x1] = sint x0 # [sint x0 + 1 .. sint x1]"
    using le by (simp add: upto_rec1)
  show ?case
    by (subst GFX_writeLine_loop.simps)
       (use le Suc.prems Suc.hyps(1) [OF n Suc.prems] in \<open>simp add: Let_def s u GFX_writePixel_def\<close>)
qed


lemma GFX_writeFastHLine_span:
  fixes a b :: "16 word"
  assumes "sint a \<le> sint b" "sint b - sint a \<le> 32767" "sint b < 32767"
  shows "GFX_writeFastHLine a y (int16_of (sint b - sint a + 1)) color
     = Some (StartWrite # map (\<lambda>i. DrawPixel (int16_of i) y color) [sint a .. sint b] @ [EndWrite])"
proof -
  define dx where "dx = (int16_of (sint b - sint a))"
  have dx: "sint dx = sint b - sint a"
    unfolding dx_def using assms by (intro sint16_of_int) simp_all
  define err where "err = (int16_of (sint dx sdiv 2))"
  have "sint dx sdiv 2 = sint dx div 2"
    using assms dx by (simp add: signed_divide_int_def sgn_if)
  moreover have "0 \<le> sint dx div 2" "sint dx div 2 < 32768" using assms dx by simp_all
  ultimately have err: "0 \<le> sint err"
    unfolding err_def by (simp add: sint16_of_int)
  have "GFX_writeLine a y b y color = GFX_writeLine_loop False color dx 0 (- 1) b a y err []"
    using assms(1) by (simp add: GFX_writeLine_def Let_def dx_def err_def)
  also have "\<dots> = Some ([] @ map (\<lambda>i. DrawPixel (int16_of i) y color) [sint a .. sint b])"
    by (rule GFX_hline_loop [OF assms(3) err])
  finally show ?thesis
    by (simp add: GFX_writeFastHLine_def GFX_drawFastHLine_def in_transaction_def span_end
        del: of_int_add of_int_diff)
qed

lemma GFX_fillTriangle_flat:
  "\<exists>(a :: 16 word) (b :: 16 word). sint a = min (sint x0) (min (sint x1) (sint x2))
       \<and> sint b = max (sint x0) (max (sint x1) (sint x2))
       \<and> GFX_fillTriangle x0 y x1 y x2 y color
           = map_option Inr (in_transaction (GFX_writeFastHLine a y (int16_of (sint b - sint a + 1)) color))"
proof -
  define a1 where "a1 = (if sint x1 < sint x0 then x1 else x0)"
  define b1 where "b1 = (if sint x1 < sint x0 then x0 else if sint x1 > sint x0 then x1 else x0)"
  define a where "a = (if sint x2 < sint a1 then x2 else a1)"
  define b where "b = (if sint x2 < sint a1 then b1 else if sint x2 > sint b1 then x2 else b1)"
  have "sint a = min (sint x0) (min (sint x1) (sint x2))"
    by (auto simp add: a_def a1_def min_def)
  moreover have "sint b = max (sint x0) (max (sint x1) (sint x2))"
    by (auto simp add: b_def b1_def a1_def max_def)
  moreover have "GFX_fillTriangle x0 y x1 y x2 y color
           = map_option Inr (in_transaction (GFX_writeFastHLine a y (int16_of (sint b - sint a + 1)) color))"
    by (simp add: GFX_fillTriangle_def Let_def a_def b_def a1_def b1_def del: of_int_add of_int_diff)
  ultimately show ?thesis by blast
qed

lemma event_pixels_append: "event_pixels (xs @ ys) = event_pixels xs @ event_pixels ys"
  by (induction xs rule: event_pixels.induct) simp_all

lemma event_pixels_run:
  "event_pixels (map (\<lambda>i. DrawPixel (f i) y color) is) = map (\<lambda>i. (f i, y)) is"
  by (induction "is") simp_all

text \<open>
  On a receiver that keeps the base-class \<open>writeFastHLine\<close>, \<open>writeLine\<close> and \<open>writePixel\<close>
  (\<open>GFXcanvas1\<close> and \<open>GFXcanvas16\<close> override \<open>drawPixel\<close> and \<open>fillScreen\<close> only), the flat
  triangle is one span as long as the 16-bit arithmetic of the line writer holds: for three
  vertices with equal y-coordinates whose x-coordinates span at most 32767 columns and stay
  below 32767, \<open>fillTriangle\<close> returns and passes to \<open>drawPixel\<close> exactly the columns from the
  least to the greatest x-coordinate, each once, at row \<open>y\<close>, inside its transaction, and
  nothing else. (At a span of 32767 columns the width \<open>b - a + 1\<close> is not an \<open>int16_t\<close>; the
  base-class \<open>writeFastHLine\<close> adds it back to \<open>a\<close> and the sum wraps around to \<open>b\<close>.)
\<close>

theorem fillTriangle_flat_span:
  assumes "max (sint x0) (max (sint x1) (sint x2)) - min (sint x0) (min (sint x1) (sint x2)) \<le> 32767"
    and "max (sint x0) (max (sint x1) (sint x2)) < 32767"
  shows "GFX_fillTriangle x0 y x1 y x2 y color
     = Some (Inr ([StartWrite, StartWrite]
          @ map (\<lambda>i. DrawPixel (int16_of i) y color)
              [min (sint x0) (min (sint x1) (sint x2)) .. max (sint x0) (max (sint x1) (sint x2))]
          @ [EndWrite, EndWrite]))"
proof -
  from GFX_fillTriangle_flat [of x0 x1 x2 y color] obtain a b :: "16 word"
    where a: "sint a = min (sint x0) (min (sint x1) (sint x2))"
      and b: "sint b = max (sint x0) (max (sint x1) (sint x2))"
      and eq: "GFX_fillTriangle x0 y x1 y x2 y color
           = map_option Inr (in_transaction (GFX_writeFastHLine a y (int16_of (sint b - sint a + 1)) color))"
    by blast
  have le: "sint a \<le> sint b" unfolding a b by simp
  have "GFX_writeFastHLine a y (int16_of (sint b - sint a + 1)) color
     = Some (StartWrite # map (\<lambda>i. DrawPixel (int16_of i) y color) [sint a .. sint b] @ [EndWrite])"
    using assms by (intro GFX_writeFastHLine_span le) (simp_all add: a b)
  then show ?thesis unfolding eq by (simp add: in_transaction_def a b)
qed

theorem fillTriangle_flat_span_witness:
  "GFX_fillTriangle 5 2 1 2 3 2 0xFFFF
     = Some (Inr [StartWrite, StartWrite, DrawPixel 1 2 0xFFFF, DrawPixel 2 2 0xFFFF, DrawPixel 3 2 0xFFFF,
                  DrawPixel 4 2 0xFFFF, DrawPixel 5 2 0xFFFF, EndWrite, EndWrite])"
  using fillTriangle_flat_span [of 5 1 3 2 "0xFFFF"] by (simp add: upto_rec1)


text \<open>
  Claim C7. Degenerate triangle fill: for every three vertices with equal y-coordinates,
  \<open>fillTriangle\<close> should write exactly one horizontal span, the columns from the least to the
  greatest x-coordinate at row \<open>y\<close>, and nothing else. The code, which handles the case "as
  its own thing" with one \<open>writeFastHLine\<close>, misses the spans wider than 32767 columns: on
  a receiver with the base-class \<open>writeFastHLine\<close> and \<open>writeLine\<close>, for the vertices
  \<open>(-20000, 5)\<close>, \<open>(0, 5)\<close>, \<open>(20000, 5)\<close> the 16-bit \<open>dx\<close> of the line writer wraps around
  to \<open>-25536\<close>, the error term starts below zero and the line steps to row 4 after its first
  pixel. The call passes \<open>(-20000, 5)\<close> and then the columns \<open>-19999\<close> to \<open>20000\<close> of row 4 to
  \<open>drawPixel\<close>: row 4 is written, and of row 5 only the first column.
\<close>

theorem fillTriangle_wide_span:
  "GFX_fillTriangle (- 20000) 5 0 5 20000 5 0xFFFF
     = Some (Inr ([StartWrite, StartWrite, DrawPixel (- 20000) 5 0xFFFF]
          @ map (\<lambda>i. DrawPixel (int16_of i) 4 0xFFFF) [- 19999 .. 20000]
          @ [EndWrite, EndWrite]))
   \<and> (- 19999, 4) \<in> triangle_pixels (GFX_fillTriangle (- 20000) 5 0 5 20000 5 0xFFFF)
   \<and> (- 19999, 5) \<notin> triangle_pixels (GFX_fillTriangle (- 20000) 5 0 5 20000 5 0xFFFF)"
proof -
  let ?c = "0xFFFF :: u16"
  define cols where "cols = [sint (- 19999 :: 16 word) .. sint (20000 :: 16 word)]"
  have lo: "sint (- 19999 :: 16 word) = - 19999" and hi: "sint (20000 :: 16 word) = 20000"
    by simp_all
  have cols: "cols = [- 19999 .. 20000]" unfolding cols_def lo hi ..
  have "GFX_writeLine (- 20000) 5 20000 5 ?c
      = GFX_writeLine_loop False ?c 40000 0 (- 1) 20000 (- 20000) 5 (- 12768) []"
    by (simp add: GFX_writeLine_def Let_def signed_divide_int_def)
  also have "\<dots> = GFX_writeLine_loop False ?c 40000 0 (- 1) 20000 (- 19999) 4 27232 [DrawPixel (- 20000) 5 ?c]"
    by (subst GFX_writeLine_loop.simps) (simp add: GFX_writePixel_def)
  also have "\<dots> = Some ([DrawPixel (- 20000) 5 ?c] @ map (\<lambda>i. DrawPixel (int16_of i) 4 ?c) cols)"
    unfolding cols_def by (rule GFX_hline_loop) simp_all
  finally have line: "GFX_writeLine (- 20000) 5 20000 5 ?c
      = Some ([DrawPixel (- 20000) 5 ?c] @ map (\<lambda>i. DrawPixel (int16_of i) 4 ?c) cols)" .
  have tri: "GFX_fillTriangle (- 20000) 5 0 5 20000 5 ?c
      = map_option Inr (in_transaction (in_transaction (GFX_writeLine (- 20000) 5 20000 5 ?c)))"
    by (simp add: GFX_fillTriangle_def Let_def GFX_writeFastHLine_def GFX_drawFastHLine_def)
  have run: "GFX_fillTriangle (- 20000) 5 0 5 20000 5 ?c
     = Some (Inr ([StartWrite, StartWrite, DrawPixel (- 20000) 5 ?c]
          @ map (\<lambda>i. DrawPixel (int16_of i) 4 ?c) cols @ [EndWrite, EndWrite]))"
    unfolding tri line by (simp add: in_transaction_def)
  have px: "triangle_pixels (GFX_fillTriangle (- 20000) 5 0 5 20000 5 ?c)
      = set ((- 20000, 5) # map (\<lambda>i. (int16_of i, 4)) cols)"
    unfolding tri line
    by (simp add: in_transaction_def triangle_pixels_def event_pixels_append event_pixels_run)
  have "(- 19999 :: int) \<in> set cols"
    unfolding cols_def set_upto by simp
  then have "(int16_of (- 19999), 4 :: 16 word) \<in> (\<lambda>i. (int16_of i, 4)) ` set cols"
    by (rule imageI)
  then have row4: "(- 19999, 4) \<in> triangle_pixels (GFX_fillTriangle (- 20000) 5 0 5 20000 5 ?c)"
    unfolding px by simp
  have "(- 19999 :: 16 word) \<noteq> - 20000" by simp
  moreover have "(4 :: 16 word) \<noteq> 5" by simp
  ultimately have row5: "(- 19999, 5) \<notin> triangle_pixels (GFX_fillTriangle (- 20000) 5 0 5 20000 5 ?c)"
    unfolding px by auto
  from run row4 row5 show ?thesis unfolding cols by blast
qed

text \<open>
  The same 16-bit arithmetic at the other end: with a vertex at column 32767 the loop
  counter of the line writer wraps around and the call never returns.
\<close>

lemma GFX_fillTriangle_never_returns:
  "GFX_fillTriangle 0 0 1 0 32767 0 color = None"
proof -
  have "GFX_writeLine 0 0 32767 0 color = None"
    by (simp add: GFX_writeLine_def Let_def GFX_writeLine_loop_diverges)
  then show ?thesis
    by (simp add: GFX_fillTriangle_def Let_def GFX_writeFastHLine_def GFX_drawFastHLine_def in_transaction_def)
qed

end
